theory Spec2Isabelle
  imports Main "HOL-Library.Word" "HOL-Library.Log_Nat"
begin

unbundle bit_operations_syntax

section \<open>Python values, exceptions and sequence operations\<close>

text \<open>
  The exceptions the modelled code can raise. \<open>StructError\<close> is \<open>struct.error\<close>;
  \<open>OSError\<close> is what a failing \<open>recvfrom\<close> raises. All are subclasses of
  \<open>Exception\<close>.
\<close>

datatype py_error =
  IndexError | KeyError | OverflowError | ValueError | StructError | UnicodeDecodeError | OSError

type_synonym byte = "8 word"

text \<open>Sequencing of statements that may raise: the first exception ends the run.\<close>

fun and_then :: "py_error + 'a \<Rightarrow> ('a \<Rightarrow> py_error + 'b) \<Rightarrow> py_error + 'b" where
  "and_then (Inl e) f = Inl e"
| "and_then (Inr v) f = f v"

text \<open>\<open>xs[i]\<close> for a non-negative index: IndexError beyond the end.\<close>

definition item :: "'a list \<Rightarrow> nat \<Rightarrow> py_error + 'a" where
  "item xs i = (if i < length xs then Inr (xs ! i) else Inl IndexError)"

text \<open>
  Slices. A bound \<open>i\<close> of a slice of a sequence of length \<open>n\<close> counts from the end when
  negative and is clamped to \<open>0 .. n\<close>. A missing bound (\<open>xs[:j]\<close>, \<open>xs[i:]\<close>) is
  written as \<open>0\<close> or as the length. Assigning to a slice replaces the region by the
  new elements, whatever their number.
\<close>

definition slice_bound :: "nat \<Rightarrow> int \<Rightarrow> nat" where
  "slice_bound n i = (if i < 0 then nat (max 0 (int n + i)) else min (nat i) n)"

definition getslice :: "'a list \<Rightarrow> int \<Rightarrow> int \<Rightarrow> 'a list" where
  "getslice xs i j =
     (let a = slice_bound (length xs) i; b = slice_bound (length xs) j
      in take (b - a) (drop a xs))"

definition setslice :: "'a list \<Rightarrow> int \<Rightarrow> int \<Rightarrow> 'a list \<Rightarrow> 'a list" where
  "setslice xs i j ys =
     (let a = slice_bound (length xs) i; b = slice_bound (length xs) j
      in take a xs @ ys @ drop (max a b) xs)"

text \<open>\<open>v.to_bytes(n, 'little')\<close>: OverflowError for a negative value or one that needs
  more than \<open>n\<close> bytes.\<close>

definition to_bytes :: "int \<Rightarrow> nat \<Rightarrow> py_error + int list" where
  "to_bytes v n =
     (if v < 0 \<or> 256 ^ n \<le> v then Inl OverflowError
      else Inr (map (\<lambda>k. (v div 256 ^ k) mod 256) [0..<n]))"

text \<open>\<open>bytes(xs)\<close> of a list of integers: ValueError unless every element is in
  \<open>range(256)\<close>.\<close>

definition is_byte :: "int \<Rightarrow> bool" where
  "is_byte v = (0 \<le> v \<and> v < 256)"

definition bytes :: "int list \<Rightarrow> py_error + byte list" where
  "bytes xs = (if list_all is_byte xs then Inr (map word_of_int xs) else Inl ValueError)"

section \<open>The checksum functions\<close>

text \<open>
  \<open>crcmod.mkCrcFun(poly, rev=True, initCrc, xorOut=0)\<close> is the reflected table-driven
  CRC: the register starts at \<open>initCrc\<close>, each input byte \<open>x\<close> replaces the register
  \<open>crc\<close> by \<open>table[x ^ (crc & 0xFF)] ^ (crc >> 8)\<close>, and \<open>table[i]\<close> is \<open>i\<close> shifted
  right eight times, the bit-reversed polynomial (without its top bit) being xor-ed in
  whenever a one is shifted out. The bit-reversed polynomials of \<open>0x131\<close> and
  \<open>0x11021\<close> are \<open>0x8C\<close> and \<open>0x8408\<close>.
\<close>

primrec repeat :: "nat \<Rightarrow> ('a \<Rightarrow> 'a) \<Rightarrow> 'a \<Rightarrow> 'a" where
  "repeat 0 f c = c"
| "repeat (Suc n) f c = repeat n f (f c)"

definition shift_r8 :: "8 word \<Rightarrow> 8 word \<Rightarrow> 8 word" where
  "shift_r8 poly c = (if bit c 0 then drop_bit 1 c XOR poly else drop_bit 1 c)"

definition shift_r16 :: "16 word \<Rightarrow> 16 word \<Rightarrow> 16 word" where
  "shift_r16 poly c = (if bit c 0 then drop_bit 1 c XOR poly else drop_bit 1 c)"

definition bytecrc_r8 :: "8 word \<Rightarrow> 8 word \<Rightarrow> 8 word" where
  "bytecrc_r8 poly c = repeat 8 (shift_r8 poly) c"

definition bytecrc_r16 :: "16 word \<Rightarrow> 16 word \<Rightarrow> 16 word" where
  "bytecrc_r16 poly c = repeat 8 (shift_r16 poly) c"

definition crc8r :: "byte list \<Rightarrow> 8 word \<Rightarrow> 8 word" where
  "crc8r data crc = foldl (\<lambda>c x. bytecrc_r8 (word_reverse 0x31) (x XOR c)) crc data"

definition crc16r :: "byte list \<Rightarrow> 16 word \<Rightarrow> 16 word" where
  "crc16r data crc =
     foldl (\<lambda>c x. bytecrc_r16 (word_reverse 0x1021) (ucast x XOR (c AND 0xFF)) XOR drop_bit 8 c)
       crc data"

definition CRC8_FUNC :: "byte list \<Rightarrow> int" where
  "CRC8_FUNC data = uint (crc8r data 0x77)"

definition CRC16_FUNC :: "byte list \<Rightarrow> int" where
  "CRC16_FUNC data = uint (crc16r data 0x3692)"

section \<open>Building a packet\<close>

text \<open>
  \<open>build_packet\<close>, statement by statement. The list has at least 11 elements, so the
  three index assignments (\<open>packet[0]\<close>, \<open>packet[3]\<close>, \<open>packet[4]\<close>) are always in
  range.
\<close>

definition build_packet :: "int \<Rightarrow> int \<Rightarrow> int \<Rightarrow> int list \<Rightarrow> py_error + int list" where
  "build_packet pac_type cmd_id seq_id data =
     (let size = 11 + length data;
          packet = replicate size 0;
          packet = packet[0 := 0xcc]
      in and_then (to_bytes (push_bit 3 (int size)) 2) (\<lambda>size_le.
      let packet = setslice packet 1 3 size_le
      in and_then (bytes (getslice packet 0 3)) (\<lambda>head.
      let packet = packet[3 := CRC8_FUNC head];
          packet = packet[4 := pac_type]
      in and_then (to_bytes cmd_id 2) (\<lambda>cmd_le.
      let packet = setslice packet 5 7 cmd_le
      in and_then (to_bytes seq_id 2) (\<lambda>seq_le.
      let packet = setslice packet 7 9 seq_le;
          packet = setslice packet 9 (- 2) data
      in and_then (bytes (getslice packet 0 (- 2))) (\<lambda>body.
      and_then (to_bytes (CRC16_FUNC body) 2) (\<lambda>crc_le.
      Inr (setslice packet (- 2) (int (length packet)) crc_le))))))))"

text \<open>\<open>packet_to_binary\<close>: \<open>Struct('!nB').pack\<close> raises \<open>struct.error\<close> on an element
  outside \<open>0 .. 255\<close>.\<close>

definition packet_to_binary :: "int list \<Rightarrow> py_error + byte list" where
  "packet_to_binary packet =
     (if list_all is_byte packet then Inr (map word_of_int packet) else Inl StructError)"

section \<open>Floating-point numbers\<close>

text \<open>
  A Python float is an IEEE 754 binary64 number. The model keeps its exact value as a
  rational, and every float operation rounds the exact result to 53 significant bits,
  to nearest, ties to even (\<open>fround\<close>). The exponent range is not limited in the model
  and infinities, NaN and the sign of zero are not represented: the program divides
  integers below \<open>10 ^ 6\<close> in magnitude by 100 or 1000 and adds numbers of magnitude at
  most 3 to a sum, which neither overflows nor loses a subnormal bit.
  \<open>ilog2 q\<close> is the exponent of a positive \<open>q\<close>: the \<open>e\<close> with \<open>2 ^ e \<le> q < 2 ^ (e + 1)\<close>.
\<close>

definition round_half_even :: "rat \<Rightarrow> int" where
  "round_half_even r =
     (let f = \<lfloor>r\<rfloor>; d = r - of_int f
      in if d < 1 / 2 then f else if 1 / 2 < d then f + 1 else if even f then f else f + 1)"

definition ilog2 :: "rat \<Rightarrow> int" where
  "ilog2 q = (if 1 \<le> q then bitlen \<lfloor>q\<rfloor> - 1 else - bitlen (\<lceil>1 / q\<rceil> - 1))"

definition fround :: "rat \<Rightarrow> rat" where
  "fround q =
     (if q = 0 then 0
      else let u = 2 powi (ilog2 \<bar>q\<bar> - 52) in of_int (round_half_even (q / u)) * u)"

text \<open>\<open>a / b\<close> on integers (true division, correctly rounded); the divisor is a non-zero
  constant wherever the program divides.\<close>

definition py_truediv :: "int \<Rightarrow> int \<Rightarrow> rat" where
  "py_truediv a b = fround (of_int a / of_int b)"

text \<open>\<open>round(x)\<close> of a float is the nearest integer, ties to even; \<open>round(x, 1)\<close> is the
  float nearest to the exact value of \<open>x\<close> rounded to one decimal, ties to even.\<close>

definition py_round :: "rat \<Rightarrow> int" where
  "py_round v = round_half_even v"

definition py_round1 :: "rat \<Rightarrow> rat" where
  "py_round1 v = fround (of_int (round_half_even (v * 10)) / 10)"

text \<open>\<open>a + b\<close> where one operand is a float (an integer operand is converted first,
  exactly for the integer 0 the program starts from).\<close>

definition py_fadd :: "rat \<Rightarrow> rat \<Rightarrow> rat" where
  "py_fadd a b = fround (a + b)"

section \<open>Text\<close>

text \<open>
  A Python \<open>str\<close> is a list of Unicode code points. \<open>str_of_int\<close> is \<open>str(n)\<close> (what
  an f-string writes for an integer); \<open>int_of_str\<close> is \<open>int(s)\<close> on a string of decimal
  digits, the only strings the program passes to it.
\<close>

type_synonym py_str = "nat list"

definition str_lit :: "string \<Rightarrow> py_str" where
  "str_lit cs = map of_char cs"

fun digits :: "nat \<Rightarrow> py_str" where
  "digits n = (if n < 10 then [48 + n] else digits (n div 10) @ [48 + n mod 10])"

definition str_of_int :: "int \<Rightarrow> py_str" where
  "str_of_int i = (if i < 0 then 45 # digits (nat (- i)) else digits (nat i))"

definition is_digit :: "nat \<Rightarrow> bool" where
  "is_digit c = (48 \<le> c \<and> c \<le> 57)"

definition int_of_str :: "py_str \<Rightarrow> py_error + int" where
  "int_of_str cs =
     (if cs \<noteq> [] \<and> list_all is_digit cs
      then Inr (int (foldl (\<lambda>acc c. 10 * acc + (c - 48)) 0 cs))
      else Inl ValueError)"

text \<open>
  \<open>bytes.decode('utf-8')\<close>, strict: the well-formed byte sequences of the Unicode
  standard (no overlong forms, no surrogates, nothing above U+10FFFF); anything else
  raises UnicodeDecodeError.
\<close>

definition cont :: "nat \<Rightarrow> bool" where
  "cont c = (128 \<le> c \<and> c \<le> 191)"

fun utf8 :: "nat list \<Rightarrow> py_str option" where
  "utf8 [] = Some []"
| "utf8 (b # bs) =
     (if b < 128 then map_option ((#) b) (utf8 bs)
      else if 194 \<le> b \<and> b \<le> 223 then
        (case bs of
           c1 # r \<Rightarrow>
             if cont c1 then map_option ((#) ((b - 192) * 64 + (c1 - 128))) (utf8 r) else None
         | _ \<Rightarrow> None)
      else if 224 \<le> b \<and> b \<le> 239 then
        (case bs of
           c1 # c2 # r \<Rightarrow>
             if (if b = 224 then 160 else 128) \<le> c1 \<and> c1 \<le> (if b = 237 then 159 else 191)
                \<and> cont c2
             then map_option ((#) ((b - 224) * 4096 + (c1 - 128) * 64 + (c2 - 128))) (utf8 r)
             else None
         | _ \<Rightarrow> None)
      else if 240 \<le> b \<and> b \<le> 244 then
        (case bs of
           c1 # c2 # c3 # r \<Rightarrow>
             if (if b = 240 then 144 else 128) \<le> c1 \<and> c1 \<le> (if b = 244 then 143 else 191)
                \<and> cont c2 \<and> cont c3
             then map_option
                    ((#) ((b - 240) * 262144 + (c1 - 128) * 4096 + (c2 - 128) * 64 + (c3 - 128)))
                    (utf8 r)
             else None
         | _ \<Rightarrow> None)
      else None)"

definition decode_utf8 :: "byte list \<Rightarrow> py_error + py_str" where
  "decode_utf8 bs = (case utf8 (map unat bs) of None \<Rightarrow> Inl UnicodeDecodeError | Some t \<Rightarrow> Inr t)"

section \<open>The session object\<close>

text \<open>
  The attributes of a \<open>Tello\<close> object. \<open>pos_x\<close>, \<open>pos_y\<close>, \<open>pos_z\<close> are the attributes
  \<open>x\<close>, \<open>y\<close>, \<open>z\<close>: numbers, the integer 0 at first and after a reset, floats after
  the first telemetry frame, kept by their exact value. \<open>get_command\<close> is the integer
  0 at first and a string later. \<open>sent\<close> is not an attribute: it records, in order,
  the datagrams handed to \<open>sock.sendto\<close>. The transport itself (delivery, a failing or
  closed socket on the sending side) and the interleaving of the two threads are outside
  the model.
\<close>

datatype py_value = PyInt int | PyStr py_str

record tello =
  sequence :: int
  speed :: int
  ssid :: py_str
  uptime :: int
  height :: int
  pos_x :: rat
  pos_y :: rat
  pos_z :: rat
  vx :: int
  vy :: int
  vz :: int
  flytime :: int
  battery :: int
  wifi :: int
  get_command :: py_value
  rec_command_id :: int
  sent :: "byte list list"

definition CMD_LIST :: "string \<rightharpoonup> int" where
  "CMD_LIST = map_of [(''takeoff'', 84), (''land'', 85), (''stick'', 80), (''get_ssid'', 17)]"

definition PAC_TYPE_LIST :: "string \<rightharpoonup> int" where
  "PAC_TYPE_LIST =
     map_of [(''takeoff'', 0x68), (''land'', 0x68), (''stick'', 0x60), (''get_ssid'', 0x48)]"

definition VIDEO_PORT :: int where
  "VIDEO_PORT = 6038"

text \<open>\<open>d[k]\<close> on a dictionary: KeyError for a missing key.\<close>

definition lookup :: "('k \<rightharpoonup> 'v) \<Rightarrow> 'k \<Rightarrow> py_error + 'v" where
  "lookup d k = (case d k of None \<Rightarrow> Inl KeyError | Some v \<Rightarrow> Inr v)"

definition init_state :: "tello \<Rightarrow> tello" where
  "init_state s =
     s\<lparr>speed := 0, ssid := str_lit ''unknown'', uptime := 0, height := 0,
       pos_x := 0, pos_y := 0, pos_z := 0, vx := 0, vy := 0, vz := 0,
       flytime := 0, battery := 0, wifi := 0, get_command := PyInt 0, rec_command_id := 0\<rparr>"

text \<open>The object after \<open>self.sequence = 1\<close> and \<open>self.init_state()\<close> in \<open>__init__\<close>,
  before \<open>connect\<close>; nothing has been sent yet.\<close>

definition created :: tello where
  "created =
     init_state
       \<lparr>sequence = 1, speed = 0, ssid = [], uptime = 0, height = 0,
        pos_x = 0, pos_y = 0, pos_z = 0, vx = 0, vy = 0, vz = 0,
        flytime = 0, battery = 0, wifi = 0, get_command = PyInt 0, rec_command_id = 0,
        sent = []\<rparr>"

section \<open>Sending\<close>

text \<open>What \<open>datetime.datetime.now()\<close> returns is an input of the model.\<close>

record clock =
  hour :: nat
  minute :: nat
  second :: nat
  microsecond :: nat

definition get_current_time :: "clock \<Rightarrow> py_error + int list" where
  "get_current_time now =
     (let h = int (hour now); m = int (minute now); s = int (second now);
          ms = py_round (py_truediv (int (microsecond now)) 1000)
      in and_then (to_bytes ms 2) (\<lambda>ms_le. Inr ([h, m, s] @ ms_le)))"

definition move_to :: "clock \<Rightarrow> int list \<Rightarrow> tello \<Rightarrow> py_error + int list" where
  "move_to now move s =
     (let data = replicate 11 0
      in and_then (item move 0) (\<lambda>m0.
      and_then (item move 1) (\<lambda>m1.
      and_then (item move 2) (\<lambda>m2.
      and_then (item move 3) (\<lambda>m3.
      let stick_data =
            push_bit 44 (speed s) + push_bit 33 m0 + push_bit 22 m1 + push_bit 11 m2 + m3
      in and_then (to_bytes stick_data 6) (\<lambda>stick_le.
      let data = setslice data 0 6 stick_le
      in and_then (get_current_time now) (\<lambda>t.
      Inr (setslice data 6 (int (length data)) t))))))))"

text \<open>
  \<open>send_to\<close> returns the object and the exception that ended the call, if any. An
  exception leaves the attributes as they were when it was raised: in particular
  \<open>sequence\<close> stays 0 when \<open>move_to\<close> raises in a \<open>stick\<close> send.
\<close>

definition default_move :: "int list" where
  "default_move = replicate 4 1024"

definition send_to :: "clock \<Rightarrow> string \<Rightarrow> int list \<Rightarrow> tello \<Rightarrow> tello \<times> py_error option" where
  "send_to now cmd move s =
     (let s1 = (if cmd = ''land'' then s else if cmd = ''stick'' then s\<lparr>sequence := 0\<rparr> else s);
          payload = (if cmd = ''land'' then Inr [0x00]
                     else if cmd = ''stick'' then move_to now move s1
                     else Inr [])
      in case and_then payload (\<lambda>data.
              and_then (lookup PAC_TYPE_LIST cmd) (\<lambda>pac_type.
              and_then (lookup CMD_LIST cmd) (\<lambda>cmd_id.
              and_then (build_packet pac_type cmd_id (sequence s1) data) (\<lambda>packet.
              packet_to_binary packet)))) of
           Inl e \<Rightarrow> (s1, Some e)
         | Inr dgram \<Rightarrow> (s1\<lparr>sent := sent s1 @ [dgram], sequence := sequence s1 + 1\<rparr>, None))"

definition connect :: "clock \<Rightarrow> tello \<Rightarrow> tello \<times> py_error option" where
  "connect now s =
     (case and_then (to_bytes VIDEO_PORT 2) (\<lambda>port_le. bytes (map int (str_lit ''conn_req:'') @ port_le)) of
        Inl e \<Rightarrow> (s, Some e)
      | Inr conn_req_cmd \<Rightarrow> send_to now ''get_ssid'' default_move (s\<lparr>sent := sent s @ [conn_req_cmd]\<rparr>))"

definition speed_switch :: "tello \<Rightarrow> tello" where
  "speed_switch s = s\<lparr>speed := (if speed s = 0 then 1 else 0)\<rparr>"

definition cie_reset :: "tello \<Rightarrow> tello" where
  "cie_reset s = s\<lparr>pos_x := 0, pos_y := 0, pos_z := 0\<rparr>"

section \<open>Receiving\<close>

text \<open>
  A statement of \<open>parse_data\<close> reads one or two elements of \<open>rec\<close>, in the order
  given, and assigns; an IndexError leaves the object as the statements before it made
  it. \<open>seq_stmt\<close> runs a statement after what came before, unless that raised.
\<close>

definition assign1 ::
    "int list \<Rightarrow> nat \<Rightarrow> (int \<Rightarrow> tello \<Rightarrow> tello) \<Rightarrow> tello \<Rightarrow> tello \<times> py_error option" where
  "assign1 rec i upd s =
     (case item rec i of Inl e \<Rightarrow> (s, Some e) | Inr a \<Rightarrow> (upd a s, None))"

definition assign2 ::
    "int list \<Rightarrow> nat \<Rightarrow> nat \<Rightarrow> (int \<Rightarrow> int \<Rightarrow> tello \<Rightarrow> tello) \<Rightarrow> tello \<Rightarrow> tello \<times> py_error option" where
  "assign2 rec i j upd s =
     (case and_then (item rec i) (\<lambda>a. and_then (item rec j) (\<lambda>b. Inr (upd a b s))) of
        Inl e \<Rightarrow> (s, Some e)
      | Inr s' \<Rightarrow> (s', None))"

fun seq_stmt ::
    "tello \<times> py_error option \<Rightarrow> (tello \<Rightarrow> tello \<times> py_error option) \<Rightarrow> tello \<times> py_error option" where
  "seq_stmt (s, None) stmt = stmt s"
| "seq_stmt (s, Some e) stmt = (s, Some e)"

definition parse_data :: "int list \<Rightarrow> tello \<Rightarrow> tello \<times> py_error option" where
  "parse_data rec s =
     seq_stmt (seq_stmt (seq_stmt (seq_stmt (seq_stmt (seq_stmt (seq_stmt (seq_stmt (seq_stmt (seq_stmt
      (assign2 rec 7 8 (\<lambda>a b s. s\<lparr>uptime := a + 255 * b\<rparr>) s)
      (assign2 rec 9 10 (\<lambda>a b s. s\<lparr>height := a - b\<rparr>)))
      (assign2 rec 11 12 (\<lambda>a b s. s\<lparr>vy := a - b\<rparr>)))
      (assign2 rec 13 14 (\<lambda>a b s. s\<lparr>vx := a - b\<rparr>)))
      (assign2 rec 15 16 (\<lambda>a b s. s\<lparr>vz := - (a - b)\<rparr>)))
      (\<lambda>s. (s\<lparr>pos_x := py_fadd (pos_x s) (py_round1 (py_truediv (vx s) 100))\<rparr>, None)))
      (\<lambda>s. (s\<lparr>pos_y := py_fadd (pos_y s) (py_round1 (py_truediv (vy s) 100))\<rparr>, None)))
      (\<lambda>s. (s\<lparr>pos_z := py_fadd (pos_z s) (py_round1 (py_truediv (vz s) 100))\<rparr>, None)))
      (assign2 rec 17 18 (\<lambda>a b s. s\<lparr>flytime := a * b\<rparr>)))
      (assign1 rec 21 (\<lambda>a s. s\<lparr>battery := a\<rparr>)))
      (assign2 rec 26 27 (\<lambda>a b s. s\<lparr>get_command := PyStr (str_of_int a @ str_lit '' '' @ str_of_int b)\<rparr>))"

text \<open>
  One pass through the body of the \<open>try\<close> in \<open>receive_data\<close>, for the datagram that
  \<open>recvfrom(1518)\<close> returned (at most 1518 bytes of what was sent). \<open>rec\<close> is the tuple
  of the bytes as integers.
\<close>

definition on_datagram :: "byte list \<Rightarrow> tello \<Rightarrow> tello \<times> py_error option" where
  "on_datagram dgram s =
     (let data = take 1518 dgram; rec = map uint data
      in case and_then (item rec 6) (\<lambda>b6. and_then (item rec 5) (\<lambda>b5.
              int_of_str (str_of_int b6 @ str_of_int b5))) of
           Inl e \<Rightarrow> (s, Some e)
         | Inr cid \<Rightarrow>
             let s = s\<lparr>rec_command_id := cid\<rparr>
             in if cid = 17 then
                  (case decode_utf8 (getslice data 11 (- 2)) of
                     Inl e \<Rightarrow> (s, Some e)
                   | Inr t \<Rightarrow> (s\<lparr>ssid := t\<rparr>, None))
                else if cid = 26 then
                  (case and_then (item rec 10) (\<lambda>b10. and_then (item rec 9) (\<lambda>b9.
                          int_of_str (str_of_int b10 @ str_of_int b9))) of
                     Inl e \<Rightarrow> (s, Some e)
                   | Inr w \<Rightarrow> (s\<lparr>wifi := w\<rparr>, None))
                else if cid = 86 then parse_data rec s
                else (s, None))"

text \<open>
  The loop of \<open>receive_data\<close> runs forever; the model runs it over the finite list of
  what \<open>recvfrom\<close> did so far: it returned a datagram or raised an OSError. The
  \<open>except Exception\<close> clause prints the exception and the loop goes on, so the result is
  the object after the last event together with the exceptions printed, in order.
\<close>

datatype recv_event = Datagram "byte list" | RecvFails

fun try_body :: "recv_event \<Rightarrow> tello \<Rightarrow> tello \<times> py_error option" where
  "try_body (Datagram dgram) s = on_datagram dgram s"
| "try_body RecvFails s = (s, Some OSError)"

fun receive_data :: "recv_event list \<Rightarrow> tello \<times> py_error list \<Rightarrow> tello \<times> py_error list" where
  "receive_data [] (s, printed) = (s, printed)"
| "receive_data (ev # evs) (s, printed) =
     (case try_body ev s of
        (s', None) \<Rightarrow> receive_data evs (s', printed)
      | (s', Some e) \<Rightarrow> receive_data evs (s', printed @ [e]))"

section \<open>Notions used to state the properties\<close>

text \<open>
  The value of a little-endian byte string, and the frame format as the specification
  lays it out: the sync byte, the total length shifted left by three, the 8-bit checksum
  of these three bytes, the packet type, the command id, the sequence number, the
  payload, and the 16-bit checksum of all that precedes it.
\<close>

definition from_le :: "int list \<Rightarrow> int" where
  "from_le bs = foldr (\<lambda>b acc. b + 256 * acc) bs 0"

definition spec_head :: "nat \<Rightarrow> int list" where
  "spec_head n = [0xcc, (8 * (11 + int n)) mod 256, (8 * (11 + int n)) div 256]"

definition spec_body :: "int \<Rightarrow> int \<Rightarrow> int \<Rightarrow> int list \<Rightarrow> int list" where
  "spec_body pac_type cmd_id seq_id data =
     spec_head (length data)
     @ [CRC8_FUNC (map word_of_int (spec_head (length data))), pac_type,
        cmd_id mod 256, cmd_id div 256, seq_id mod 256, seq_id div 256]
     @ data"

definition spec_frame :: "int \<Rightarrow> int \<Rightarrow> int \<Rightarrow> int list \<Rightarrow> int list" where
  "spec_frame pac_type cmd_id seq_id data =
     spec_body pac_type cmd_id seq_id data
     @ [CRC16_FUNC (map word_of_int (spec_body pac_type cmd_id seq_id data)) mod 256,
        CRC16_FUNC (map word_of_int (spec_body pac_type cmd_id seq_id data)) div 256]"

text \<open>Both checksums embedded in a datagram validate, in the specification's sense:
  byte 3 is the 8-bit checksum of bytes 0 to 2 and the last two bytes are the 16-bit
  checksum, little-endian, of all bytes before them.\<close>

definition spec_checksums_valid :: "byte list \<Rightarrow> bool" where
  "spec_checksums_valid dgram =
     (11 \<le> length dgram
      \<and> uint (dgram ! 3) = CRC8_FUNC (getslice dgram 0 3)
      \<and> from_le (map uint (getslice dgram (- 2) (int (length dgram))))
          = CRC16_FUNC (getslice dgram 0 (- 2)))"

text \<open>The packed stick value as the specification writes it, with bitwise or.\<close>

definition spec_stick_packed :: "int \<Rightarrow> int list \<Rightarrow> int" where
  "spec_stick_packed speed_flag move =
     (push_bit 44 speed_flag OR push_bit 33 (move ! 0) OR push_bit 22 (move ! 1)
      OR push_bit 11 (move ! 2) OR move ! 3)"

text \<open>The same value as \<open>move_to\<close> computes it, with addition, and the range of a
  channel.\<close>

definition stick_sum :: "int \<Rightarrow> int list \<Rightarrow> int" where
  "stick_sum speed_flag move =
     push_bit 44 speed_flag + push_bit 33 (move ! 0) + push_bit 22 (move ! 1)
     + push_bit 11 (move ! 2) + move ! 3"

definition valid_channel :: "int \<Rightarrow> bool" where
  "valid_channel c = (0 \<le> c \<and> c \<le> 2047)"

text \<open>The sequence number a transmitted datagram carries in bytes 7 and 8.\<close>

definition frame_seq :: "byte list \<Rightarrow> int" where
  "frame_seq dgram = from_le (map uint (getslice dgram 7 9))"

text \<open>
  The command id the receive path reconstructs from the high byte \<open>hi\<close> and the low
  byte \<open>lo\<close> of a received frame: the number whose decimal digits are those of \<open>hi\<close>
  followed by those of \<open>lo\<close>.
\<close>

definition dec_concat :: "nat \<Rightarrow> nat \<Rightarrow> int" where
  "dec_concat hi lo = int (hi * 10 ^ length (digits lo) + lo)"

text \<open>The tuple \<open>rec\<close> that the receive path unpacks from a datagram.\<close>

definition unpacked :: "byte list \<Rightarrow> int list" where
  "unpacked dgram = map uint (take 1518 dgram)"

text \<open>A telemetry frame whose bytes yield \<open>vx = 100\<close>: at least 17 bytes, dispatched
  with command id 86, and byte 13 minus byte 14 is 100.\<close>

definition vx100 :: "byte list \<Rightarrow> bool" where
  "vx100 d = (17 \<le> length d \<and> dec_concat (unat (d ! 6)) (unat (d ! 5)) = 86
              \<and> uint (d ! 13) - uint (d ! 14) = 100)"

text \<open>The frame of a command that carries no stick data, by the command catalogue.\<close>

definition nonstick_frame :: "string \<Rightarrow> int \<Rightarrow> int list" where
  "nonstick_frame cmd seq =
     (if cmd = ''takeoff'' then spec_frame 0x68 84 seq []
      else if cmd = ''land'' then spec_frame 0x68 85 seq [0]
      else spec_frame 0x48 17 seq [])"

text \<open>What \<open>datetime\<close> guarantees of the fields of \<open>now()\<close>.\<close>

definition valid_clock :: "clock \<Rightarrow> bool" where
  "valid_clock now =
     (hour now < 24 \<and> minute now < 60 \<and> second now < 60 \<and> microsecond now < 1000000)"

text \<open>A caller that issues one \<open>send_to\<close> after another, with the default move vector,
  and goes on after an exception.\<close>

fun send_all :: "clock \<Rightarrow> string list \<Rightarrow> tello \<Rightarrow> tello" where
  "send_all now [] s = s"
| "send_all now (cmd # cmds) s = send_all now cmds (fst (send_to now cmd default_move s))"

section \<open>Auxiliary facts: sequences and byte strings\<close>

lemma to_bytes_2: "0 \<le> v \<Longrightarrow> v < 65536 \<Longrightarrow> to_bytes v 2 = Inr [v mod 256, v div 256]"
  by (simp add: to_bytes_def upt_rec numeral_2_eq_2)

lemma to_bytes_fails: "v < 0 \<or> 256 ^ n \<le> v \<Longrightarrow> to_bytes v n = Inl OverflowError"
  by (simp add: to_bytes_def)

lemma setslice_append:
  assumes "slice_bound (length pre + (length mid + length post)) i = length pre"
    and "slice_bound (length pre + (length mid + length post)) j = length pre + length mid"
  shows "setslice (pre @ mid @ post) i j ys = pre @ ys @ post"
  using assms by (simp add: setslice_def)

lemma getslice_append:
  assumes "slice_bound (length pre + (length mid + length post)) i = length pre"
    and "slice_bound (length pre + (length mid + length post)) j = length pre + length mid"
  shows "getslice (pre @ mid @ post) i j = mid"
  using assms by (simp add: getslice_def)

lemma is_byte_mod: "is_byte (v mod 256)"
  by (simp add: is_byte_def)

lemma is_byte_div: "0 \<le> v \<Longrightarrow> v < 65536 \<Longrightarrow> is_byte (v div 256)"
  unfolding is_byte_def by linarith

lemma CRC8_byte: "is_byte (CRC8_FUNC bs)"
  using uint_lt2p [of "crc8r bs 0x77"] by (simp add: is_byte_def CRC8_FUNC_def)

lemma CRC16_range: "0 \<le> CRC16_FUNC bs" "CRC16_FUNC bs < 65536"
  using uint_lt2p [of "crc16r bs 0x3692"] by (simp_all add: CRC16_FUNC_def)

lemma bytes_ok: "list_all is_byte xs \<Longrightarrow> bytes xs = Inr (map word_of_int xs)"
  by (simp add: bytes_def)


lemma rep_split: "replicate (11 + n) (0::int) = [0,0,0,0,0,0,0,0,0] @ replicate n 0 @ [0,0]"
proof -
  have "11 + n = 9 + (n + 2)" by simp
  then have "replicate (11 + n) (0::int) = replicate 9 0 @ replicate n 0 @ replicate 2 0"
    by (simp only: replicate_add)
  then show ?thesis by (simp add: eval_nat_numeral)
qed

lemma bytes_fails: "\<not> list_all is_byte xs \<Longrightarrow> bytes xs = Inl ValueError"
  by (simp add: bytes_def)

lemma build_packet_eq:
  "build_packet pac_type cmd_id seq_id data =
     (if 8180 < length data \<or> cmd_id < 0 \<or> 65536 \<le> cmd_id \<or> seq_id < 0 \<or> 65536 \<le> seq_id
      then Inl OverflowError
      else if is_byte pac_type \<and> list_all is_byte data
      then Inr (spec_frame pac_type cmd_id seq_id data)
      else Inl ValueError)"
proof -
  define n where "n = length data"
  define total where "total = 8 * (11 + int n)"
  define s0 where "s0 = total mod 256"
  define s1 where "s1 = total div 256"
  define c8 where "c8 = CRC8_FUNC (map word_of_int [0xcc, s0, s1])"
  define body where "body = [0xcc, s0, s1, c8, pac_type, cmd_id mod 256, cmd_id div 256,
      seq_id mod 256, seq_id div 256] @ data"
  have p0: "(replicate (11 + n) (0::int))[0 := 0xcc] = [] @ [0xcc, 0, 0] @ ([0,0,0,0,0,0] @ replicate n 0 @ [0,0])"
    by (simp add: rep_split)
  have pb: "push_bit 3 (int (11 + n)) = total"
    by (simp add: push_bit_eq_mult total_def)
  show ?thesis
  proof (cases "8180 < length data")
    case True
    then have "to_bytes total 2 = Inl OverflowError"
      by (intro to_bytes_fails) (simp add: total_def n_def)
    then show ?thesis
      unfolding build_packet_def Let_def n_def [symmetric] pb using True
      by (simp only: and_then.simps) (simp add: n_def)
  next
    case len: False
    then have tot: "0 \<le> total" "total < 65536" by (auto simp: total_def n_def)
    have sz: "to_bytes total 2 = Inr [s0, s1]"
      using tot by (simp add: to_bytes_2 s0_def s1_def)
    have p1: "setslice ([] @ [0xcc, 0, 0] @ ([0,0,0,0,0,0] @ replicate n 0 @ [0,0])) 1 3 [s0, s1]
        = [0xcc] @ [s0, s1] @ ([0,0,0,0,0,0] @ replicate n 0 @ [0,0])"
      by (simp add: setslice_def slice_bound_def)
    have g1: "getslice ([0xcc] @ [s0, s1] @ ([0,0,0,0,0,0] @ replicate n 0 @ [0,0])) 0 3 = [0xcc, s0, s1]"
      by (simp add: getslice_def slice_bound_def)
    have hb: "list_all is_byte [0xcc, s0, s1]"
      using tot by (simp add: is_byte_mod is_byte_div s0_def s1_def) (simp add: is_byte_def)
    have b1: "bytes [0xcc, s0, s1] = Inr (map word_of_int [0xcc, s0, s1])"
      using hb by (rule bytes_ok)
    have p2: "([0xcc] @ [s0, s1] @ ([0,0,0,0,0,0] @ replicate n 0 @ [0,0]))[3 := c8, 4 := pac_type]
        = [0xcc, s0, s1, c8, pac_type, 0, 0, 0, 0] @ replicate n 0 @ [0,0]"
      by simp
    have start: "build_packet pac_type cmd_id seq_id data =
        and_then (to_bytes cmd_id 2) (\<lambda>cmd_le.
        and_then (to_bytes seq_id 2) (\<lambda>seq_le.
        and_then (bytes (getslice (setslice (setslice (setslice
            ([0xcc, s0, s1, c8, pac_type, 0, 0, 0, 0] @ replicate n 0 @ [0,0]) 5 7 cmd_le) 7 9 seq_le) 9 (- 2) data) 0 (- 2))) (\<lambda>body.
        and_then (to_bytes (CRC16_FUNC body) 2) (\<lambda>crc_le.
        Inr (setslice (setslice (setslice (setslice
            ([0xcc, s0, s1, c8, pac_type, 0, 0, 0, 0] @ replicate n 0 @ [0,0]) 5 7 cmd_le) 7 9 seq_le) 9 (- 2) data)
              (- 2) (int (length (setslice (setslice (setslice
            ([0xcc, s0, s1, c8, pac_type, 0, 0, 0, 0] @ replicate n 0 @ [0,0]) 5 7 cmd_le) 7 9 seq_le) 9 (- 2) data))) crc_le)))))"
      unfolding build_packet_def Let_def n_def [symmetric] pb
      by (simp only: p0 sz and_then.simps p1 g1 b1 c8_def [symmetric] p2)
    show ?thesis
    proof (cases "cmd_id < 0 \<or> 65536 \<le> cmd_id")
      case True
      then have "to_bytes cmd_id 2 = Inl OverflowError"
        by (intro to_bytes_fails) simp
      then show ?thesis unfolding start using True by auto
    next
      case cid: False
      have cb: "to_bytes cmd_id 2 = Inr [cmd_id mod 256, cmd_id div 256]"
        using cid by (intro to_bytes_2) simp_all
      have p3: "setslice ([0xcc, s0, s1, c8, pac_type, 0, 0, 0, 0] @ replicate n 0 @ [0,0]) 5 7 [cmd_id mod 256, cmd_id div 256]
          = [0xcc, s0, s1, c8, pac_type, cmd_id mod 256, cmd_id div 256, 0, 0] @ replicate n 0 @ [0,0]"
        by (simp add: setslice_def slice_bound_def)
      show ?thesis
      proof (cases "seq_id < 0 \<or> 65536 \<le> seq_id")
        case True
        then have "to_bytes seq_id 2 = Inl OverflowError"
          by (intro to_bytes_fails) simp
        then show ?thesis unfolding start cb using True by auto
      next
        case sq: False
        have sb: "to_bytes seq_id 2 = Inr [seq_id mod 256, seq_id div 256]"
          using sq by (intro to_bytes_2) simp_all
        have p4: "setslice ([0xcc, s0, s1, c8, pac_type, cmd_id mod 256, cmd_id div 256, 0, 0] @ replicate n 0 @ [0,0]) 7 9
             [seq_id mod 256, seq_id div 256]
            = [0xcc, s0, s1, c8, pac_type, cmd_id mod 256, cmd_id div 256, seq_id mod 256, seq_id div 256] @ replicate n 0 @ [0,0]"
          by (simp add: setslice_def slice_bound_def)
        have p5: "setslice ([0xcc, s0, s1, c8, pac_type, cmd_id mod 256, cmd_id div 256, seq_id mod 256, seq_id div 256] @ replicate n 0 @ [0,0]) 9 (- 2) data
            = body @ [0, 0]"
          unfolding body_def n_def append_assoc
          by (rule setslice_append) (simp_all add: slice_bound_def)
        have g2: "getslice (body @ [0,0]) 0 (- 2) = body"
          using getslice_append [of "[]" body "[0,0]" 0 "- 2"] by (simp add: slice_bound_def)
        have sbody: "spec_body pac_type cmd_id seq_id data = body"
          by (simp add: spec_body_def spec_head_def body_def c8_def s0_def s1_def total_def n_def)
        have rest: "build_packet pac_type cmd_id seq_id data =
            and_then (bytes body) (\<lambda>b.
            and_then (to_bytes (CRC16_FUNC b) 2) (\<lambda>crc_le.
            Inr (setslice (body @ [0, 0]) (- 2) (int (length (body @ [0, 0]))) crc_le)))"
          unfolding start by (simp only: cb sb and_then.simps p3 p4 p5 g2)
        show ?thesis
        proof (cases "is_byte pac_type \<and> list_all is_byte data")
          case False
          then have "\<not> list_all is_byte body" by (auto simp: body_def)
          then have "bytes body = Inl ValueError" by (rule bytes_fails)
          then show ?thesis unfolding rest using False len cid sq by auto
        next
          case True
          define crc where "crc = CRC16_FUNC (map word_of_int body)"
          have "list_all is_byte body"
            using True hb cid sq
            by (simp add: body_def is_byte_mod is_byte_div c8_def CRC8_byte)
          then have b2: "bytes body = Inr (map word_of_int body)" by (rule bytes_ok)
          have kb: "to_bytes crc 2 = Inr [crc mod 256, crc div 256]"
            unfolding crc_def by (rule to_bytes_2) (rule CRC16_range)+
          have p6: "setslice (body @ [0, 0]) (- 2) (int (length (body @ [0, 0]))) [crc mod 256, crc div 256]
              = body @ [crc mod 256, crc div 256]"
            using setslice_append [of body "[0,0]" "[]" "- 2" "int (length (body @ [0, 0]))" "[crc mod 256, crc div 256]"]
            by (simp add: slice_bound_def)
          have "build_packet pac_type cmd_id seq_id data = Inr (body @ [crc mod 256, crc div 256])"
            unfolding rest by (simp only: b2 and_then.simps crc_def [symmetric] kb p6)
          then show ?thesis
            using True len cid sq by (simp add: spec_frame_def sbody crc_def)
        qed
      qed
    qed
  qed
qed

lemma build_packet_closed:
  assumes "is_byte pac_type" and "0 \<le> cmd_id" and "cmd_id < 65536"
    and "0 \<le> seq_id" and "seq_id < 65536"
    and "list_all is_byte data" and "length data \<le> 8180"
  shows "build_packet pac_type cmd_id seq_id data = Inr (spec_frame pac_type cmd_id seq_id data)"
  using assms by (simp add: build_packet_eq)

lemma bit_bounded: "0 \<le> (c::int) \<Longrightarrow> c < 2 ^ k \<Longrightarrow> bit c n \<Longrightarrow> n < k"
  by (metis bit_take_bit_iff take_bit_int_eq_self)

lemma packed_sum_eq_or:
  fixes sp c0 c1 c2 c3 :: int
  assumes "0 \<le> c0" "c0 < 2 ^ 11" "0 \<le> c1" "c1 < 2 ^ 11" "0 \<le> c2" "c2 < 2 ^ 11" "0 \<le> c3" "c3 < 2 ^ 11"
  shows "push_bit 44 sp + push_bit 33 c0 + push_bit 22 c1 + push_bit 11 c2 + c3
       = push_bit 44 sp OR push_bit 33 c0 OR push_bit 22 c1 OR push_bit 11 c2 OR c3"
proof -
  have b0: "bit c0 n \<Longrightarrow> n < 11" for n using assms(1,2) by (rule bit_bounded)
  have b1: "bit c1 n \<Longrightarrow> n < 11" for n using assms(3,4) by (rule bit_bounded)
  have b2: "bit c2 n \<Longrightarrow> n < 11" for n using assms(5,6) by (rule bit_bounded)
  have b3: "bit c3 n \<Longrightarrow> n < 11" for n using assms(7,8) by (rule bit_bounded)
  have s1: "push_bit 44 sp + push_bit 33 c0 = push_bit 44 sp OR push_bit 33 c0"
    by (rule disjunctive_add) (use b0 in \<open>fastforce simp: bit_simps\<close>)
  have s2: "(push_bit 44 sp OR push_bit 33 c0) + push_bit 22 c1 = (push_bit 44 sp OR push_bit 33 c0) OR push_bit 22 c1"
    by (rule disjunctive_add) (use b1 in \<open>fastforce simp: bit_simps\<close>)
  have s3: "((push_bit 44 sp OR push_bit 33 c0) OR push_bit 22 c1) + push_bit 11 c2
      = ((push_bit 44 sp OR push_bit 33 c0) OR push_bit 22 c1) OR push_bit 11 c2"
    by (rule disjunctive_add) (use b2 in \<open>fastforce simp: bit_simps\<close>)
  have s4: "(((push_bit 44 sp OR push_bit 33 c0) OR push_bit 22 c1) OR push_bit 11 c2) + c3
      = (((push_bit 44 sp OR push_bit 33 c0) OR push_bit 22 c1) OR push_bit 11 c2) OR c3"
    by (rule disjunctive_add) (use b3 in \<open>fastforce simp: bit_simps\<close>)
  show ?thesis by (simp only: s1 s2 s3 s4, simp only: or.assoc)
qed

section \<open>Auxiliary facts: floating-point rounding\<close>

lemma rhe_of_int: "round_half_even (of_int k) = k"
  by (simp add: round_half_even_def)

lemma rhe_lower: "r - 1 / 2 \<le> of_int (round_half_even r)"
  unfolding round_half_even_def Let_def by (auto; linarith)

lemma rhe_upper: "of_int (round_half_even r) \<le> r + 1 / 2"
  unfolding round_half_even_def Let_def by (auto; linarith)

lemma rhe_nonneg: "0 \<le> r \<Longrightarrow> 0 \<le> round_half_even r"
  unfolding round_half_even_def Let_def by auto

lemma ilog2_lower:
  assumes "0 < q"
  shows "2 powi (ilog2 q) \<le> q"
proof (cases "1 \<le> q")
  case True
  then have pos: "0 < \<lfloor>q\<rfloor>" by simp
  from bitlen_bounds [OF pos] have "(2::int) ^ nat (bitlen \<lfloor>q\<rfloor> - 1) \<le> \<lfloor>q\<rfloor>" by simp
  then have "rat_of_int (2 ^ nat (bitlen \<lfloor>q\<rfloor> - 1)) \<le> of_int \<lfloor>q\<rfloor>"
    by (simp only: of_int_le_iff)
  also have "\<dots> \<le> q" by simp
  finally have "(2::rat) ^ nat (bitlen \<lfloor>q\<rfloor> - 1) \<le> q" by simp
  moreover have "1 \<le> bitlen \<lfloor>q\<rfloor>" using pos by (simp add: bitlen_alt_def)
  ultimately show ?thesis using True by (simp add: ilog2_def power_int_def)
next
  case False
  define m where "m = \<lceil>1 / q\<rceil>"
  have "1 < 1 / q" using False assms by simp
  then have m2: "2 \<le> m" unfolding m_def by linarith
  then have pos: "0 < m - 1" by simp
  from bitlen_bounds [OF pos] have "m - 1 < 2 ^ nat (bitlen (m - 1))" by simp
  then have "m \<le> 2 ^ nat (bitlen (m - 1))" by simp
  then have "rat_of_int m \<le> of_int (2 ^ nat (bitlen (m - 1)))" by (simp only: of_int_le_iff)
  then have "rat_of_int m \<le> 2 ^ nat (bitlen (m - 1))" by simp
  moreover have "1 / q \<le> of_int m" unfolding m_def by simp
  ultimately have "1 / q \<le> 2 ^ nat (bitlen (m - 1))" by linarith
  then have "1 / 2 ^ nat (bitlen (m - 1)) \<le> q"
    using assms by (simp add: field_simps)
  moreover have "(2::rat) powi (- bitlen (m - 1)) = 1 / 2 ^ nat (bitlen (m - 1))"
    using bitlen_nonneg [of "m - 1"] power_int_minus_divide [of "2::rat" "bitlen (m - 1)"]
    by (simp add: power_int_def)
  ultimately show ?thesis
    using False by (simp add: ilog2_def m_def)
qed

lemma ilog2_upper:
  assumes "0 < q"
  shows "q < 2 powi (ilog2 q + 1)"
proof (cases "1 \<le> q")
  case True
  then have pos: "0 < \<lfloor>q\<rfloor>" by simp
  from bitlen_bounds [OF pos] have "\<lfloor>q\<rfloor> + 1 \<le> 2 ^ nat (bitlen \<lfloor>q\<rfloor>)" by simp
  then have "rat_of_int (\<lfloor>q\<rfloor> + 1) \<le> of_int (2 ^ nat (bitlen \<lfloor>q\<rfloor>))"
    by (simp only: of_int_le_iff)
  moreover have "q < of_int (\<lfloor>q\<rfloor> + 1)" by linarith
  ultimately have "q < 2 ^ nat (bitlen \<lfloor>q\<rfloor>)" by simp
  moreover have "0 \<le> bitlen \<lfloor>q\<rfloor>" by (rule bitlen_nonneg)
  ultimately show ?thesis using True by (simp add: ilog2_def power_int_def)
next
  case False
  define m where "m = \<lceil>1 / q\<rceil>"
  define b where "b = bitlen (m - 1)"
  have "1 < 1 / q" using False assms by simp
  then have m2: "2 \<le> m" unfolding m_def by linarith
  then have pos: "0 < m - 1" by simp
  have b1: "1 \<le> b" using pos by (simp add: b_def bitlen_alt_def)
  from bitlen_bounds [OF pos] have "2 ^ nat (b - 1) \<le> m - 1" by (simp add: b_def)
  then have "rat_of_int (2 ^ nat (b - 1)) \<le> of_int (m - 1)" by (simp only: of_int_le_iff)
  moreover have "of_int (m - 1) < 1 / q" unfolding m_def by linarith
  ultimately have "2 ^ nat (b - 1) < 1 / q" by simp
  then have "q < 1 / 2 ^ nat (b - 1)"
    using assms by (simp add: field_simps)
  moreover have "(2::rat) powi (- b + 1) = 1 / 2 ^ nat (b - 1)"
    using b1 power_int_minus_divide [of "2::rat" "b - 1"] by (simp add: power_int_def)
  ultimately show ?thesis
    using False by (simp add: ilog2_def m_def b_def)
qed

lemma ilog2_unique:
  assumes "2 powi e \<le> q" "q < 2 powi (e + 1)"
  shows "ilog2 q = e"
proof -
  have pos: "0 < q" using assms(1) zero_less_power_int [of "2::rat" e] by linarith
  have "(2::rat) powi e < 2 powi (ilog2 q + 1)"
    using assms(1) ilog2_upper [OF pos] by linarith
  then have "e < ilog2 q + 1"
    by (metis linorder_not_le one_less_numeral_iff power_int_increasing semiring_norm(76) less_imp_le)
  moreover have "(2::rat) powi (ilog2 q) < 2 powi (e + 1)"
    using assms(2) ilog2_lower [OF pos] by linarith
  then have "ilog2 q < e + 1"
    by (metis linorder_not_le one_less_numeral_iff power_int_increasing semiring_norm(76) less_imp_le)
  ultimately show ?thesis by simp
qed


lemma fround_of_int:
  assumes "\<bar>k\<bar> \<le> 2 ^ 53"
  shows "fround (of_int k) = of_int k"
proof (cases "k = 0")
  case True
  then show ?thesis by (simp add: fround_def)
next
  case False
  define q where "q = \<bar>rat_of_int k\<bar>"
  define e where "e = ilog2 q"
  have pos: "0 < q" using False by (simp add: q_def)
  have "(2::rat) powi e \<le> q" unfolding e_def by (rule ilog2_lower [OF pos])
  also have "q \<le> 2 ^ 53"
  proof -
    have "rat_of_int \<bar>k\<bar> \<le> of_int (2 ^ 53)" using assms by (simp only: of_int_le_iff)
    then show ?thesis by (simp add: q_def)
  qed
  also have "\<dots> < (2::rat) powi 54" by simp
  finally have "e < 54"
    by (metis linorder_not_le one_less_numeral_iff power_int_increasing semiring_norm(76) less_imp_le)
  have "1 \<le> q" 
  proof -
    have "1 \<le> \<bar>k\<bar>" using False by simp
    then have "rat_of_int 1 \<le> of_int \<bar>k\<bar>" by (simp only: of_int_le_iff)
    then show ?thesis by (simp add: q_def)
  qed
  then have "0 \<le> e" unfolding e_def ilog2_def using bitlen_bounds [of "\<lfloor>q\<rfloor>"] 
    by (simp add: bitlen_alt_def)
  show ?thesis
  proof (cases "e = 53")
    case True
    then have "2 ^ 53 \<le> q" using \<open>(2::rat) powi e \<le> q\<close> by simp
    with \<open>q \<le> 2 ^ 53\<close> have "q = 2 ^ 53" by simp
    then have k: "rat_of_int k = 2 ^ 53 \<or> rat_of_int k = - (2 ^ 53)"
      unfolding q_def by linarith
    have u: "(2::rat) powi (ilog2 \<bar>rat_of_int k\<bar> - 52) = 2"
      using True by (simp add: e_def q_def)
    have "rat_of_int k / 2 = of_int (k div 2)"
    proof -
      have "k = 2 ^ 53 \<or> k = - (2 ^ 53)" using k
        by (metis of_int_eq_iff of_int_minus of_int_numeral of_int_power)
      then show ?thesis by auto
    qed
    then show ?thesis
      using False u by (simp add: fround_def rhe_of_int del: of_int_eq_iff) 
  next
    case False
    with \<open>e < 54\<close> \<open>0 \<le> e\<close> have e: "0 \<le> 52 - e" by simp
    have u: "(2::rat) powi (ilog2 \<bar>rat_of_int k\<bar> - 52) = 1 / 2 ^ nat (52 - e)"
      using e power_int_minus_divide [of "2::rat" "52 - e"] by (simp add: e_def q_def power_int_def)
    have "rat_of_int k / (1 / 2 ^ nat (52 - e)) = of_int (k * 2 ^ nat (52 - e))"
      by simp
    then show ?thesis
      using \<open>k \<noteq> 0\<close> unfolding fround_def Let_def u
      by (simp only: rhe_of_int if_False of_int_eq_0_iff) simp
  qed
qed


lemma fround_nonneg: "0 \<le> q \<Longrightarrow> 0 \<le> fround q"
  by (simp add: fround_def Let_def rhe_nonneg)

lemma fround_upper:
  assumes "0 < q"
  shows "fround q \<le> q + q / 2 ^ 53"
proof -
  define u where "u = (2::rat) powi (ilog2 q - 52)"
  have upos: "0 < u" by (simp add: u_def)
  have "u = 2 powi (ilog2 q) / 2 ^ 52"
    by (simp add: u_def power_int_diff)
  also have "\<dots> \<le> q / 2 ^ 52"
    using ilog2_lower [OF assms] by (simp add: divide_right_mono)
  finally have ule: "u \<le> q / 2 ^ 52" .
  have "fround q = of_int (round_half_even (q / u)) * u"
    using assms by (simp add: fround_def u_def Let_def)
  also have "\<dots> \<le> (q / u + 1 / 2) * u"
    using rhe_upper [of "q / u"] upos by (simp only: mult_le_cancel_right_pos)
  also have "\<dots> = q + u / 2" using upos by (simp add: field_simps)
  also have "\<dots> \<le> q + q / 2 ^ 53" using ule by simp
  finally show ?thesis .
qed

lemma ms_range:
  assumes "us < 1000000"
  shows "0 \<le> py_round (py_truediv (int us) 1000) \<and> py_round (py_truediv (int us) 1000) < 65536"
proof -
  define q where "q = rat_of_int (int us) / of_int 1000"
  have q0: "0 \<le> q" by (simp add: q_def)
  have q1: "q \<le> 1000" using assms by (simp add: q_def field_simps)
  have f0: "0 \<le> fround q" using q0 by (rule fround_nonneg)
  have f1: "fround q \<le> 2000"
  proof (cases "q = 0")
    case True
    then show ?thesis by (simp add: fround_def)
  next
    case False
    with q0 have "0 < q" by simp
    from fround_upper [OF this] have "fround q \<le> q + q / 2 ^ 53" .
    also have "\<dots> \<le> q + q" using q0 by (simp add: field_simps)
    finally show ?thesis using q1 by simp
  qed
  have "rat_of_int (round_half_even (fround q)) \<le> fround q + 1 / 2" by (rule rhe_upper)
  then have "rat_of_int (round_half_even (fround q)) < of_int 65536" using f1 by simp
  then have "round_half_even (fround q) < 65536" by (simp only: of_int_less_iff)
  then show ?thesis using rhe_nonneg [OF f0] by (simp add: py_round_def py_truediv_def q_def)
qed

section \<open>Auxiliary facts: the frame layout\<close>

lemma from_le_2: "from_le [v mod 256, v div 256] = v"
  by (simp add: from_le_def)

lemma length_spec_body: "length (spec_body pac_type cmd_id seq_id data) = 9 + length data"
  by (simp add: spec_body_def spec_head_def)

lemma spec_body_cons:
  "\<exists>s0 s1 c8. spec_body pac_type cmd_id seq_id data =
     [0xcc, s0, s1, c8, pac_type, cmd_id mod 256, cmd_id div 256, seq_id mod 256, seq_id div 256] @ data
     \<and> s0 + 256 * s1 = 8 * (11 + int (length data))
     \<and> c8 = CRC8_FUNC (map word_of_int [0xcc, s0, s1])"
  by (simp add: spec_body_def spec_head_def)

lemma spec_frame_fields:
  fixes pac_type cmd_id seq_id :: int and data :: "int list"
  defines "f \<equiv> spec_frame pac_type cmd_id seq_id data"
  shows "length f = 11 + length data"
    and "f ! 0 = 0xcc"
    and "from_le (getslice f 1 3) = push_bit 3 (int (length f))"
    and "f ! 3 = CRC8_FUNC (map word_of_int (getslice f 0 3))"
    and "f ! 4 = pac_type"
    and "from_le (getslice f 5 7) = cmd_id"
    and "from_le (getslice f 7 9) = seq_id"
    and "getslice f 9 (- 2) = data"
    and "from_le (getslice f (- 2) (int (length f))) = CRC16_FUNC (map word_of_int (getslice f 0 (- 2)))"
proof -
  define crc where "crc = CRC16_FUNC (map word_of_int (spec_body pac_type cmd_id seq_id data))"
  obtain s0 s1 c8 where
    sb: "spec_body pac_type cmd_id seq_id data =
     [0xcc, s0, s1, c8, pac_type, cmd_id mod 256, cmd_id div 256, seq_id mod 256, seq_id div 256] @ data"
    and tot: "s0 + 256 * s1 = 8 * (11 + int (length data))"
    and c8: "c8 = CRC8_FUNC (map word_of_int [0xcc, s0, s1])"
    using spec_body_cons by blast
  have sf: "f = [0xcc, s0, s1, c8, pac_type, cmd_id mod 256, cmd_id div 256, seq_id mod 256, seq_id div 256] @ data
       @ [crc mod 256, crc div 256]"
    by (simp add: f_def spec_frame_def crc_def sb)
  show len: "length f = 11 + length data" by (simp add: sf)
  have "from_le (getslice f 1 3) = s0 + 256 * s1"
    by (simp add: sf getslice_def slice_bound_def from_le_def)
  then show "from_le (getslice f 1 3) = push_bit 3 (int (length f))"
    by (simp add: len push_bit_eq_mult tot)
  show "f ! 0 = 0xcc" by (simp add: sf)
  show "f ! 3 = CRC8_FUNC (map word_of_int (getslice f 0 3))"
    by (simp add: sf getslice_def slice_bound_def c8)
  show "f ! 4 = pac_type" by (simp add: sf)
  show "from_le (getslice f 5 7) = cmd_id" 
    by (simp add: sf getslice_def slice_bound_def from_le_def)
  show "from_le (getslice f 7 9) = seq_id" 
    by (simp add: sf getslice_def slice_bound_def from_le_def)
  show "getslice f 9 (- 2) = data" 
    unfolding sf by (rule getslice_append) (simp_all add: slice_bound_def)
  have fb: "f = [] @ spec_body pac_type cmd_id seq_id data @ [crc mod 256, crc div 256]"
    by (simp add: f_def spec_frame_def crc_def)
  have g: "getslice f 0 (- 2) = spec_body pac_type cmd_id seq_id data"
    unfolding fb by (rule getslice_append) (simp_all add: slice_bound_def)
  have fc: "f = spec_body pac_type cmd_id seq_id data @ [crc mod 256, crc div 256] @ []"
    by (simp add: f_def spec_frame_def crc_def)
  have h: "getslice f (- 2) (int (length f)) = [crc mod 256, crc div 256]"
    unfolding len unfolding fc by (rule getslice_append) (simp_all add: slice_bound_def length_spec_body)
  show "from_le (getslice f (- 2) (int (length f))) = CRC16_FUNC (map word_of_int (getslice f 0 (- 2)))"
    unfolding g h from_le_2 crc_def ..
qed

lemma spec_frame_bytes:
  assumes "is_byte pac_type" "0 \<le> cmd_id" "cmd_id < 65536" "0 \<le> seq_id" "seq_id < 65536"
    "list_all is_byte data" "length data \<le> 8180"
  shows "list_all is_byte (spec_frame pac_type cmd_id seq_id data)"
proof -
  have "0 \<le> 8 * (11 + int (length data))" "8 * (11 + int (length data)) < 65536"
    using assms(7) by auto
  then have "is_byte ((8 * (11 + int (length data))) div 256)" by (rule is_byte_div)
  then have "list_all is_byte (spec_head (length data))"
    by (simp add: spec_head_def is_byte_mod) (simp add: is_byte_def)
  then have "list_all is_byte (spec_body pac_type cmd_id seq_id data)"
    using assms by (simp add: spec_body_def is_byte_mod is_byte_div CRC8_byte)
  then show ?thesis
    using CRC16_range by (simp add: spec_frame_def is_byte_mod is_byte_div)
qed


lemma getslice_map: "getslice (map g xs) i j = map g (getslice xs i j)"
  by (simp add: getslice_def Let_def take_map drop_map)

lemma uint_word_of_int_byte: "is_byte v \<Longrightarrow> uint (word_of_int v :: byte) = v"
  by (simp add: is_byte_def uint_word_of_int take_bit_int_eq_self)

lemma map_uint_bytes: "list_all is_byte xs \<Longrightarrow> map uint (map word_of_int xs :: byte list) = xs"
  by (induction xs) (simp_all add: uint_word_of_int_byte)

lemma packet_to_binary_ok:
  "list_all is_byte packet \<Longrightarrow> packet_to_binary packet = Inr (map word_of_int packet)"
  by (simp add: packet_to_binary_def)

lemma spec_frame_checksums:
  assumes "list_all is_byte (spec_frame pac_type cmd_id seq_id data)"
  shows "spec_checksums_valid (map word_of_int (spec_frame pac_type cmd_id seq_id data))"
proof -
  define f where "f = spec_frame pac_type cmd_id seq_id data"
  have bs: "list_all is_byte f" using assms by (simp add: f_def)
  have len: "length f = 11 + length data" unfolding f_def by (rule spec_frame_fields)
  have "is_byte (f ! 3)" using bs len by (simp add: list_all_length)
  then have "uint (map word_of_int f ! 3 :: byte) = f ! 3"
    using len by (simp add: uint_word_of_int_byte)
  then have c8: "uint (map word_of_int f ! 3 :: byte) = CRC8_FUNC (getslice (map word_of_int f) 0 3)"
    unfolding getslice_map f_def by (simp add: spec_frame_fields(4))
  have "list_all is_byte (getslice f (- 2) (int (length f)))"
    using bs by (auto simp: getslice_def Let_def list_all_iff dest: in_set_takeD in_set_dropD)
  then have "map uint (getslice (map word_of_int f :: byte list) (- 2) (int (length f))) = getslice f (- 2) (int (length f))"
    unfolding getslice_map by (rule map_uint_bytes)
  then have c16: "from_le (map uint (getslice (map word_of_int f :: byte list) (- 2) (int (length (map word_of_int f :: byte list)))))
      = CRC16_FUNC (getslice (map word_of_int f) 0 (- 2))"
    unfolding getslice_map f_def by (simp add: spec_frame_fields(9))
  show ?thesis
    unfolding spec_checksums_valid_def f_def [symmetric] using c8 c16 len by simp
qed

section \<open>The layout of an encoded frame\<close>

text \<open>
  Claim C1, amended. For every packet type in \<open>0 .. 255\<close>, command id and sequence
  number in \<open>0 .. 65535\<close> and payload of at most 8180 bytes, \<open>build_packet\<close> returns a
  frame of exactly \<open>11 + len(payload)\<close> bytes: byte 0 is \<open>0xCC\<close>, bytes 1-2 are the
  little-endian value of the total length shifted left by three, byte 3 is the CRC8 of
  bytes 0-2, byte 4 is the packet type, bytes 5-6 the little-endian command id, bytes
  7-8 the little-endian sequence number, bytes 9 .. N-2 the payload, and the last two
  bytes the little-endian CRC16 of bytes 0 .. N-2; both checksums validate over the
  bytes that are transmitted.
\<close>

theorem build_packet_layout:
  assumes "is_byte pac_type" and "0 \<le> cmd_id" and "cmd_id < 65536"
    and "0 \<le> seq_id" and "seq_id < 65536"
    and "list_all is_byte data" and "length data \<le> 8180"
  shows "\<exists>frame dgram.
           build_packet pac_type cmd_id seq_id data = Inr frame
         \<and> length frame = 11 + length data
         \<and> list_all is_byte frame
         \<and> frame ! 0 = 0xcc
         \<and> from_le (getslice frame 1 3) = push_bit 3 (int (length frame))
         \<and> frame ! 3 = CRC8_FUNC (map word_of_int (getslice frame 0 3))
         \<and> frame ! 4 = pac_type
         \<and> from_le (getslice frame 5 7) = cmd_id
         \<and> from_le (getslice frame 7 9) = seq_id
         \<and> getslice frame 9 (- 2) = data
         \<and> from_le (getslice frame (- 2) (int (length frame)))
             = CRC16_FUNC (map word_of_int (getslice frame 0 (- 2)))
         \<and> packet_to_binary frame = Inr dgram
         \<and> spec_checksums_valid dgram"
proof -
  define f where "f = spec_frame pac_type cmd_id seq_id data"
  have b: "build_packet pac_type cmd_id seq_id data = Inr f"
    unfolding f_def using assms by (rule build_packet_closed)
  have bs: "list_all is_byte f"
    unfolding f_def using assms by (rule spec_frame_bytes)
  have p: "packet_to_binary f = Inr (map word_of_int f)"
    using bs by (rule packet_to_binary_ok)
  have v: "spec_checksums_valid (map word_of_int f)"
    using bs unfolding f_def by (rule spec_frame_checksums)
  show ?thesis
    apply (rule exI [of _ f], rule exI [of _ "map word_of_int f"])
    apply (intro conjI b bs p v)
    unfolding f_def by (rule spec_frame_fields)+
qed

text \<open>The layout at the takeoff command with sequence number 484 and no payload.\<close>

theorem build_packet_layout_witness:
  "is_byte 0x68 \<and> (0::int) \<le> 84 \<and> (84::int) < 65536 \<and> (0::int) \<le> 484 \<and> (484::int) < 65536
   \<and> list_all is_byte [] \<and> length ([]::int list) \<le> 8180
   \<and> (\<exists>frame dgram.
           build_packet 0x68 84 484 [] = Inr frame
         \<and> length frame = 11 + length ([]::int list)
         \<and> list_all is_byte frame
         \<and> frame ! 0 = 0xcc
         \<and> from_le (getslice frame 1 3) = push_bit 3 (int (length frame))
         \<and> frame ! 3 = CRC8_FUNC (map word_of_int (getslice frame 0 3))
         \<and> frame ! 4 = 0x68
         \<and> from_le (getslice frame 5 7) = 84
         \<and> from_le (getslice frame 7 9) = 484
         \<and> getslice frame 9 (- 2) = []
         \<and> from_le (getslice frame (- 2) (int (length frame)))
             = CRC16_FUNC (map word_of_int (getslice frame 0 (- 2)))
         \<and> packet_to_binary frame = Inr dgram
         \<and> spec_checksums_valid dgram)"
proof -
  have h: "is_byte 0x68" "list_all is_byte []" by (simp_all add: is_byte_def)
  from build_packet_layout [of "0x68" 84 484 "[]"] h show ?thesis by simp
qed

text \<open>
  As the claim states it, for every payload, it fails: the total length shifted left by
  three must fit the two length bytes, and a payload of 8181 bytes makes
  \<open>(size << 3).to_bytes(2, 'little')\<close> raise.
\<close>

theorem build_packet_payload_too_long:
  "build_packet 0x68 84 1 (replicate 8181 0) = Inl OverflowError"
  by (simp add: build_packet_def to_bytes_def)

section \<open>Auxiliary facts: payloads and sends\<close>

lemma from_le_digits: "from_le (map (\<lambda>k. (v div 256 ^ k) mod 256) [0..<n]) = v mod 256 ^ n"
proof (induction n arbitrary: v)
  case 0
  then show ?case by (simp add: from_le_def)
next
  case (Suc n)
  have "map (\<lambda>k. (v div 256 ^ k) mod 256) [0..<Suc n]
      = v mod 256 # map (\<lambda>k. ((v div 256) div 256 ^ k) mod 256) [0..<n]"
    by (simp add: upt_conv_Cons map_Suc_upt [symmetric] zdiv_zmult2_eq del: upt_Suc)
  then have "from_le (map (\<lambda>k. (v div 256 ^ k) mod 256) [0..<Suc n])
      = v mod 256 + 256 * from_le (map (\<lambda>k. ((v div 256) div 256 ^ k) mod 256) [0..<n])"
    by (simp add: from_le_def)
  also have "\<dots> = v mod 256 + 256 * ((v div 256) mod 256 ^ n)"
    by (simp only: Suc.IH)
  also have "\<dots> = v mod 256 ^ Suc n"
    by (simp add: zmod_zmult2_eq)
  finally show ?case .
qed

lemma to_bytes_value:
  assumes "to_bytes v n = Inr bs"
  shows "from_le bs = v" and "length bs = n" and "list_all is_byte bs"
proof -
  from assms have r: "0 \<le> v" "v < 256 ^ n" and bs: "bs = map (\<lambda>k. (v div 256 ^ k) mod 256) [0..<n]"
    by (auto simp: to_bytes_def split: if_splits)
  show "from_le bs = v" unfolding bs from_le_digits using r by simp
  show "length bs = n" by (simp add: bs)
  show "list_all is_byte bs" by (simp add: bs list_all_iff is_byte_def)
qed

lemma to_bytes_cases:
  "to_bytes v n = (if v < 0 \<or> 256 ^ n \<le> v then Inl OverflowError
                   else Inr (map (\<lambda>k. (v div 256 ^ k) mod 256) [0..<n]))"
  by (simp add: to_bytes_def)

lemma get_current_time_ok:
  assumes "valid_clock now"
  shows "\<exists>m0 m1. get_current_time now
           = Inr [int (hour now), int (minute now), int (second now), m0, m1]
         \<and> is_byte m0 \<and> is_byte m1"
proof -
  define ms where "ms = py_round (py_truediv (int (microsecond now)) 1000)"
  have "0 \<le> ms \<and> ms < 65536"
    unfolding ms_def using assms by (intro ms_range) (simp add: valid_clock_def)
  then have "to_bytes ms 2 = Inr [ms mod 256, ms div 256]" "is_byte (ms div 256)"
    by (simp_all add: to_bytes_2 is_byte_div)
  then show ?thesis
    by (simp add: get_current_time_def Let_def ms_def [symmetric] is_byte_mod)
qed

lemma move_to_eq:
  assumes "4 \<le> length move"
  shows "move_to now move s =
     and_then (to_bytes (stick_sum (speed s) move) 6) (\<lambda>stick_le.
     and_then (get_current_time now) (\<lambda>t. Inr (stick_le @ t)))"
proof -
  have it: "item move 0 = Inr (move ! 0)" "item move 1 = Inr (move ! 1)"
    "item move 2 = Inr (move ! 2)" "item move 3 = Inr (move ! 3)"
    using assms by (auto simp: item_def)
  have r: "replicate 11 (0::int) = [0,0,0,0,0,0,0,0,0,0,0]" by (simp add: eval_nat_numeral)
  have "and_then (to_bytes v 6) (\<lambda>stick_le.
          and_then (get_current_time now) (\<lambda>t.
            Inr (setslice (setslice [0,0,0,0,0,0,0,0,0,0,0] 0 6 stick_le) 6
                  (int (length (setslice [0,0,0,0,0,0,0,0,0,0,0::int] 0 6 stick_le))) t)))
      = and_then (to_bytes v 6) (\<lambda>stick_le.
          and_then (get_current_time now) (\<lambda>t. Inr (stick_le @ t)))" for v
  proof (cases "to_bytes v 6")
    case (Inl e)
    then show ?thesis by simp
  next
    case (Inr le)
    then have l6: "length le = 6" by (rule to_bytes_value)
    have a: "setslice [0,0,0,0,0,0,0,0,0,0,0::int] 0 6 le = le @ [0,0,0,0,0]"
      by (simp add: setslice_def slice_bound_def)
    have b: "setslice (le @ [0,0,0,0,0::int]) 6 (int (length (le @ [0,0,0,0,0::int]))) t = le @ t" for t
      using l6 by (simp add: setslice_def slice_bound_def)
    show ?thesis unfolding Inr and_then.simps a b ..
  qed
  then show ?thesis
    unfolding move_to_def Let_def it and_then.simps r stick_sum_def [symmetric] .
qed

lemma move_to_short: "length move < 4 \<Longrightarrow> move_to now move s = Inl IndexError"
  unfolding move_to_def Let_def item_def
  by (cases "0 < length move"; cases "1 < length move"; cases "2 < length move"; simp)

lemma stick_sum_range:
  assumes "sp = 0 \<or> sp = 1" "length move = 4" "list_all valid_channel move"
  shows "0 \<le> stick_sum sp move" "stick_sum sp move < 2 ^ 48"
    and "stick_sum sp move = spec_stick_packed sp move"
proof -
  obtain c0 c1 c2 c3 where m: "move = [c0, c1, c2, c3]"
    using assms(2) by (auto simp: length_Suc_conv eval_nat_numeral)
  have c: "0 \<le> c0" "c0 < 2 ^ 11" "0 \<le> c1" "c1 < 2 ^ 11" "0 \<le> c2" "c2 < 2 ^ 11" "0 \<le> c3" "c3 < 2 ^ 11"
    using assms(3) by (simp_all add: m valid_channel_def)
  show "0 \<le> stick_sum sp move" "stick_sum sp move < 2 ^ 48"
    using c assms(1) by (auto simp: stick_sum_def m push_bit_eq_mult)
  show "stick_sum sp move = spec_stick_packed sp move"
    unfolding stick_sum_def spec_stick_packed_def m using c by (simp add: packed_sum_eq_or)
qed

lemma getslice_prefix:
  "length pre = n \<Longrightarrow> getslice (pre @ post) 0 (int n) = pre"
  by (simp add: getslice_def slice_bound_def)

lemma lookup_catalogue:
  "lookup PAC_TYPE_LIST ''takeoff'' = Inr 0x68" "lookup CMD_LIST ''takeoff'' = Inr 84"
  "lookup PAC_TYPE_LIST ''land'' = Inr 0x68" "lookup CMD_LIST ''land'' = Inr 85"
  "lookup PAC_TYPE_LIST ''stick'' = Inr 0x60" "lookup CMD_LIST ''stick'' = Inr 80"
  "lookup PAC_TYPE_LIST ''get_ssid'' = Inr 0x48" "lookup CMD_LIST ''get_ssid'' = Inr 17"
  by (simp_all add: lookup_def PAC_TYPE_LIST_def CMD_LIST_def)

lemma lookup_unknown:
  "cmd \<notin> {''takeoff'', ''land'', ''stick'', ''get_ssid''} \<Longrightarrow> lookup PAC_TYPE_LIST cmd = Inl KeyError"
  by (simp add: lookup_def PAC_TYPE_LIST_def)

lemma send_to_nonstick:
  assumes "cmd \<in> {''takeoff'', ''land'', ''get_ssid''}"
  shows "send_to now cmd move s =
     (if sequence s < 0 \<or> 65536 \<le> sequence s then (s, Some OverflowError)
      else (s\<lparr>sent := sent s @ [map word_of_int (nonstick_frame cmd (sequence s))],
              sequence := sequence s + 1\<rparr>, None))"
proof -
  have b1: "is_byte 0x68" "is_byte 0x48" "list_all is_byte [0]" by (simp_all add: is_byte_def)
  have p: "packet_to_binary (spec_frame pt cid (sequence s) data)
       = Inr (map word_of_int (spec_frame pt cid (sequence s) data))"
    if "is_byte pt" "0 \<le> cid" "cid < 65536" "list_all is_byte data" "length data \<le> 8180"
      "\<not> (sequence s < 0 \<or> 65536 \<le> sequence s)"
    for pt cid data
    using that by (intro packet_to_binary_ok spec_frame_bytes) simp_all
  from assms consider "cmd = ''takeoff''" | "cmd = ''land''" | "cmd = ''get_ssid''" by auto
  then show ?thesis
  proof cases
    case 1
    show ?thesis unfolding 1 using p [of "0x68" 84 "[]"] b1
      by (simp add: send_to_def Let_def lookup_catalogue nonstick_frame_def build_packet_eq)
  next
    case 2
    show ?thesis unfolding 2 using p [of "0x68" 85 "[0]"] b1
      by (simp add: send_to_def Let_def lookup_catalogue nonstick_frame_def build_packet_eq)
  next
    case 3
    show ?thesis unfolding 3 using p [of "0x48" 17 "[]"] b1
      by (simp add: send_to_def Let_def lookup_catalogue nonstick_frame_def build_packet_eq)
  qed
qed

lemma send_to_unknown:
  assumes "cmd \<notin> {''takeoff'', ''land'', ''stick'', ''get_ssid''}"
  shows "send_to now cmd move s = (s, Some KeyError)"
  using assms lookup_unknown [OF assms] by (simp add: send_to_def Let_def)

lemma frame_seq_spec_frame:
  assumes "is_byte pt" "0 \<le> cid" "cid < 65536" "0 \<le> seq" "seq < 65536"
    "list_all is_byte data" "length data \<le> 8180"
  shows "frame_seq (map word_of_int (spec_frame pt cid seq data)) = seq"
proof -
  have "list_all is_byte (spec_frame pt cid seq data)" using assms by (rule spec_frame_bytes)
  then have "list_all is_byte (getslice (spec_frame pt cid seq data) 7 9)"
    by (auto simp: getslice_def Let_def list_all_iff dest: in_set_takeD in_set_dropD)
  then have "map uint (map word_of_int (getslice (spec_frame pt cid seq data) 7 9) :: byte list)
      = getslice (spec_frame pt cid seq data) 7 9"
    by (rule map_uint_bytes)
  then show ?thesis
    unfolding frame_seq_def getslice_map by (simp only: spec_frame_fields)
qed

lemma frame_seq_nonstick:
  assumes "0 \<le> seq" "seq < 65536"
  shows "frame_seq (map word_of_int (nonstick_frame cmd seq)) = seq"
  unfolding nonstick_frame_def using assms
  by (simp add: frame_seq_spec_frame is_byte_def)

lemma send_to_stick:
  "send_to now ''stick'' move s =
     (case move_to now move s of
        Inl e \<Rightarrow> (s\<lparr>sequence := 0\<rparr>, Some e)
      | Inr data \<Rightarrow>
          if 8180 < length data then (s\<lparr>sequence := 0\<rparr>, Some OverflowError)
          else if list_all is_byte data
          then (s\<lparr>sent := sent s @ [map word_of_int (spec_frame 0x60 80 0 data)], sequence := 1\<rparr>, None)
          else (s\<lparr>sequence := 0\<rparr>, Some ValueError))"
proof -
  have mv: "move_to now move (s\<lparr>sequence := 0\<rparr>) = move_to now move s"
    by (simp add: move_to_def)
  have b: "is_byte 0x60" by (simp add: is_byte_def)
  show ?thesis
  proof (cases "move_to now move s")
    case (Inl e)
    then show ?thesis by (simp add: send_to_def Let_def mv)
  next
    case (Inr data)
    have "packet_to_binary (spec_frame 0x60 80 0 data) = Inr (map word_of_int (spec_frame 0x60 80 0 data))"
      if "list_all is_byte data" "length data \<le> 8180"
      using that b by (intro packet_to_binary_ok spec_frame_bytes) simp_all
    then show ?thesis
      using Inr b by (simp add: send_to_def Let_def mv lookup_catalogue build_packet_eq)
  qed
qed

lemma send_all_sequence:
  assumes "set cmds \<subseteq> {''takeoff'', ''land'', ''get_ssid''}"
    and "0 \<le> sequence s" and "sequence s \<le> 65536"
  shows "sequence (send_all now cmds s) = min (sequence s + int (length cmds)) 65536"
  using assms
proof (induction cmds arbitrary: s)
  case Nil
  then show ?case by simp
next
  case (Cons cmd cmds)
  define s' where "s' = fst (send_to now cmd default_move s)"
  have c: "cmd \<in> {''takeoff'', ''land'', ''get_ssid''}" using Cons.prems(1) by simp
  have sq: "sequence s' = (if sequence s = 65536 then 65536 else sequence s + 1)"
    unfolding s'_def send_to_nonstick [OF c] using Cons.prems(2,3) by simp
  then have "0 \<le> sequence s'" "sequence s' \<le> 65536" using Cons.prems(2,3) by auto
  moreover have "set cmds \<subseteq> {''takeoff'', ''land'', ''get_ssid''}" using Cons.prems(1) by simp
  ultimately have "sequence (send_all now cmds s') = min (sequence s' + int (length cmds)) 65536"
    by (intro Cons.IH)
  then show ?case
    using sq by (auto simp: s'_def [symmetric] add.assoc)
qed

lemma move_to_valid:
  assumes "valid_clock now" and "length move = 4"
    and "0 \<le> stick_sum (speed s) move" and "stick_sum (speed s) move < 2 ^ 48"
  shows "\<exists>le t. move_to now move s = Inr (le @ t)
           \<and> to_bytes (stick_sum (speed s) move) 6 = Inr le
           \<and> length t = 5 \<and> list_all is_byte t"
proof -
  have tb: "to_bytes (stick_sum (speed s) move) 6
      = Inr (map (\<lambda>k. (stick_sum (speed s) move div 256 ^ k) mod 256) [0..<6])"
    using assms(3,4) by (simp add: to_bytes_cases)
  obtain m0 m1 where t: "get_current_time now
      = Inr [int (hour now), int (minute now), int (second now), m0, m1]"
    and mb: "is_byte m0" "is_byte m1"
    using get_current_time_ok [OF assms(1)] by blast
  have clk: "is_byte (int (hour now))" "is_byte (int (minute now))" "is_byte (int (second now))"
    using assms(1) by (simp_all add: valid_clock_def is_byte_def)
  have "move_to now move s = Inr (map (\<lambda>k. (stick_sum (speed s) move div 256 ^ k) mod 256) [0..<6]
      @ [int (hour now), int (minute now), int (second now), m0, m1])"
    using assms(2) by (simp add: move_to_eq tb t)
  then show ?thesis using tb mb clk by simp
qed

lemma move_to_overflow:
  assumes "length move = 4"
    and "stick_sum (speed s) move < 0 \<or> 2 ^ 48 \<le> stick_sum (speed s) move"
  shows "move_to now move s = Inl OverflowError"
proof -
  have "to_bytes (stick_sum (speed s) move) 6 = Inl OverflowError"
    using assms(2) by (intro to_bytes_fails) simp
  then show ?thesis using assms(1) by (simp add: move_to_eq)
qed

lemma created_fields: "sequence created = 1" "speed created = 0" "sent created = []"
  by (simp_all add: created_def init_state_def)

lemma send_to_stick_ok:
  assumes "valid_clock now" and "length move = 4"
    and "0 \<le> stick_sum (speed s) move" and "stick_sum (speed s) move < 2 ^ 48"
  shows "\<exists>le t. send_to now ''stick'' move s
             = (s\<lparr>sent := sent s @ [map word_of_int (spec_frame 0x60 80 0 (le @ t))],
                  sequence := 1\<rparr>, None)
           \<and> to_bytes (stick_sum (speed s) move) 6 = Inr le
           \<and> length t = 5 \<and> list_all is_byte t"
proof -
  from move_to_valid [OF assms]
  obtain le t where mv: "move_to now move s = Inr (le @ t)"
    and tb: "to_bytes (stick_sum (speed s) move) 6 = Inr le"
    and t: "length t = 5" "list_all is_byte t"
    by auto
  have "length le = 6" "list_all is_byte le" using tb by (rule to_bytes_value)+
  then have "send_to now ''stick'' move s
      = (s\<lparr>sent := sent s @ [map word_of_int (spec_frame 0x60 80 0 (le @ t))], sequence := 1\<rparr>, None)"
    using t by (simp add: send_to_stick mv)
  then show ?thesis using tb t by blast
qed

section \<open>Auxiliary facts: the receive path\<close>

declare digits.simps [simp del]

lemma digits_nonempty: "digits n \<noteq> []"
  by (subst digits.simps) simp

lemma digits_all: "list_all is_digit (digits n)"
proof (induction n rule: digits.induct)
  case (1 n)
  show ?case
  proof (cases "n < 10")
    case True
    then show ?thesis by (subst digits.simps) (simp add: is_digit_def)
  next
    case False
    have "n mod 10 < 10" by simp
    then have "is_digit (48 + n mod 10)" unfolding is_digit_def by linarith
    with False 1 show ?thesis by (subst digits.simps) simp
  qed
qed

lemma digits_value:
  "foldl (\<lambda>acc c. 10 * acc + (c - 48)) acc (digits n) = acc * 10 ^ length (digits n) + n"
proof (induction n arbitrary: acc rule: digits.induct)
  case (1 n)
  show ?case
  proof (cases "n < 10")
    case True
    then show ?thesis by (subst (1 2) digits.simps) simp
  next
    case False
    have "foldl (\<lambda>acc c. 10 * acc + (c - 48)) acc (digits n)
        = 10 * foldl (\<lambda>acc c. 10 * acc + (c - 48)) acc (digits (n div 10)) + n mod 10"
      using False by (subst digits.simps) simp
    also have "\<dots> = 10 * (acc * 10 ^ length (digits (n div 10)) + n div 10) + n mod 10"
      using False by (simp add: 1)
    also have "\<dots> = acc * 10 ^ length (digits n) + n"
      using False by (subst (2) digits.simps) (simp add: algebra_simps)
    finally show ?thesis .
  qed
qed

lemma int_of_str_concat:
  assumes "0 \<le> a" "0 \<le> b"
  shows "int_of_str (str_of_int a @ str_of_int b) = Inr (dec_concat (nat a) (nat b))"
proof -
  have "foldl (\<lambda>acc c. 10 * acc + (c - 48)) 0 (digits (nat a) @ digits (nat b))
      = nat a * 10 ^ length (digits (nat b)) + nat b"
    by (simp add: digits_value)
  then show ?thesis
    using assms by (simp add: int_of_str_def str_of_int_def digits_nonempty digits_all dec_concat_def)
qed

lemma dec_concat_zero: "dec_concat 0 lo = int lo"
  by (simp add: dec_concat_def)

lemma dec_concat_1_0: "dec_concat 1 0 = 10"
  by (simp add: dec_concat_def digits.simps)

lemma item_ok: "i < length xs \<Longrightarrow> item xs i = Inr (xs ! i)"
  by (simp add: item_def)

lemma item_fails: "length xs \<le> i \<Longrightarrow> item xs i = Inl IndexError"
  by (simp add: item_def)

lemma length_unpacked: "length (unpacked dgram) = min (length dgram) 1518"
  by (simp add: unpacked_def)

lemma unpacked_nth: "i < length dgram \<Longrightarrow> i < 1518 \<Longrightarrow> unpacked dgram ! i = uint (dgram ! i)"
  by (simp add: unpacked_def)

lemma assign2_ok:
  "i < length rec \<Longrightarrow> j < length rec \<Longrightarrow> assign2 rec i j upd s = (upd (rec ! i) (rec ! j) s, None)"
  by (simp add: assign2_def item_ok)

lemma assign1_ok: "i < length rec \<Longrightarrow> assign1 rec i upd s = (upd (rec ! i) s, None)"
  by (simp add: assign1_def item_ok)

lemma assign2_keeps:
  assumes "\<And>a b s. g (upd a b s) = g s"
  shows "g (fst (assign2 rec i j upd s)) = g s"
  by (cases "item rec i"; cases "item rec j") (simp_all add: assign2_def assms)

lemma assign1_keeps:
  assumes "\<And>a s. g (upd a s) = g s"
  shows "g (fst (assign1 rec i upd s)) = g s"
  by (cases "item rec i") (simp_all add: assign1_def assms)

lemma seq_stmt_keeps:
  assumes "g (fst r) = c" and "\<And>s. g (fst (stmt s)) = g s"
  shows "g (fst (seq_stmt r stmt)) = c"
proof (cases r)
  case (Pair s e)
  then show ?thesis using assms by (cases e) simp_all
qed

lemma parse_data_keeps:
  assumes "\<And>v s. g (s\<lparr>uptime := v\<rparr>) = g s" "\<And>v s. g (s\<lparr>height := v\<rparr>) = g s"
    "\<And>v s. g (s\<lparr>vy := v\<rparr>) = g s" "\<And>v s. g (s\<lparr>vx := v\<rparr>) = g s"
    "\<And>v s. g (s\<lparr>vz := v\<rparr>) = g s" "\<And>v s. g (s\<lparr>pos_x := v\<rparr>) = g s"
    "\<And>v s. g (s\<lparr>pos_y := v\<rparr>) = g s" "\<And>v s. g (s\<lparr>pos_z := v\<rparr>) = g s"
    "\<And>v s. g (s\<lparr>flytime := v\<rparr>) = g s" "\<And>v s. g (s\<lparr>battery := v\<rparr>) = g s"
    "\<And>v s. g (s\<lparr>get_command := v\<rparr>) = g s"
  shows "g (fst (parse_data rec s)) = g s"
  unfolding parse_data_def
  by (intro seq_stmt_keeps [where g = g] assign2_keeps [where g = g] assign1_keeps [where g = g])
     (simp_all add: assms)

lemma parse_data_keeps_id: "rec_command_id (fst (parse_data rec s)) = rec_command_id s"
  by (rule parse_data_keeps) simp_all


lemma on_datagram_short:
  assumes "length dgram < 7"
  shows "on_datagram dgram s = (s, Some IndexError)"
proof -
  have "length (map uint (take 1518 dgram)) \<le> 6" using assms by simp
  then have "item (map uint (take 1518 dgram)) 6 = Inl IndexError" by (rule item_fails)
  then show ?thesis by (simp add: on_datagram_def Let_def)
qed

lemma on_datagram_eq:
  assumes "7 \<le> length dgram"
  shows "on_datagram dgram s =
     (let cid = dec_concat (unat (dgram ! 6)) (unat (dgram ! 5));
          s1 = s\<lparr>rec_command_id := cid\<rparr>
      in if cid = 17 then
           (case decode_utf8 (getslice (take 1518 dgram) 11 (- 2)) of
              Inl e \<Rightarrow> (s1, Some e)
            | Inr t \<Rightarrow> (s1\<lparr>ssid := t\<rparr>, None))
         else if cid = 26 then
           (case and_then (item (unpacked dgram) 10) (\<lambda>b10. and_then (item (unpacked dgram) 9) (\<lambda>b9.
                   int_of_str (str_of_int b10 @ str_of_int b9))) of
              Inl e \<Rightarrow> (s1, Some e)
            | Inr w \<Rightarrow> (s1\<lparr>wifi := w\<rparr>, None))
         else if cid = 86 then parse_data (unpacked dgram) s1
         else (s1, None))"
proof -
  have i6: "item (unpacked dgram) 6 = Inr (uint (dgram ! 6))"
    and i5: "item (unpacked dgram) 5 = Inr (uint (dgram ! 5))"
    using assms by (simp_all add: item_def unpacked_def)
  have c: "int_of_str (str_of_int (uint (dgram ! 6)) @ str_of_int (uint (dgram ! 5)))
      = Inr (dec_concat (unat (dgram ! 6)) (unat (dgram ! 5)))"
    by (simp add: int_of_str_concat)
  show ?thesis
    unfolding on_datagram_def Let_def unpacked_def [symmetric]
    unfolding i6 i5 and_then.simps c
    by simp
qed

lemma on_datagram_id:
  assumes "7 \<le> length dgram"
  shows "rec_command_id (fst (on_datagram dgram s)) = dec_concat (unat (dgram ! 6)) (unat (dgram ! 5))"
  unfolding on_datagram_eq [OF assms] Let_def
  by (simp add: parse_data_keeps_id split: sum.splits)

lemma on_datagram_86:
  assumes "7 \<le> length dgram" and "dec_concat (unat (dgram ! 6)) (unat (dgram ! 5)) = 86"
  shows "on_datagram dgram s = parse_data (unpacked dgram) (s\<lparr>rec_command_id := 86\<rparr>)"
  unfolding on_datagram_eq [OF assms(1)] Let_def assms(2) by simp

lemma parse_data_split:
  assumes "17 \<le> length rec"
  shows "parse_data rec s =
     seq_stmt (seq_stmt (seq_stmt
       (s\<lparr>uptime := rec ! 7 + 255 * rec ! 8, height := rec ! 9 - rec ! 10,
          vy := rec ! 11 - rec ! 12, vx := rec ! 13 - rec ! 14, vz := - (rec ! 15 - rec ! 16),
          pos_x := py_fadd (pos_x s) (py_round1 (py_truediv (rec ! 13 - rec ! 14) 100)),
          pos_y := py_fadd (pos_y s) (py_round1 (py_truediv (rec ! 11 - rec ! 12) 100)),
          pos_z := py_fadd (pos_z s) (py_round1 (py_truediv (- (rec ! 15 - rec ! 16)) 100))\<rparr>, None)
       (assign2 rec 17 18 (\<lambda>a b s. s\<lparr>flytime := a * b\<rparr>)))
       (assign1 rec 21 (\<lambda>a s. s\<lparr>battery := a\<rparr>)))
       (assign2 rec 26 27 (\<lambda>a b s. s\<lparr>get_command := PyStr (str_of_int a @ str_lit '' '' @ str_of_int b)\<rparr>))"
  using assms by (simp add: parse_data_def assign2_ok)

lemma tail_keeps:
  assumes "\<And>v s. g (s\<lparr>flytime := v\<rparr>) = g s" "\<And>v s. g (s\<lparr>battery := v\<rparr>) = g s"
    "\<And>v s. g (s\<lparr>get_command := v\<rparr>) = g s"
  shows "g (fst (seq_stmt (seq_stmt (seq_stmt (c, None)
       (assign2 rec 17 18 (\<lambda>a b s. s\<lparr>flytime := a * b\<rparr>)))
       (assign1 rec 21 (\<lambda>a s. s\<lparr>battery := a\<rparr>)))
       (assign2 rec 26 27 (\<lambda>a b s. s\<lparr>get_command := PyStr (str_of_int a @ str_lit '' '' @ str_of_int b)\<rparr>)))) = g c"
  by (intro seq_stmt_keeps [where g = g] assign2_keeps [where g = g] assign1_keeps [where g = g])
     (simp_all add: assms)

lemma parse_data_fields:
  assumes "17 \<le> length rec"
  shows "uptime (fst (parse_data rec s)) = rec ! 7 + 255 * rec ! 8"
    and "height (fst (parse_data rec s)) = rec ! 9 - rec ! 10"
    and "vy (fst (parse_data rec s)) = rec ! 11 - rec ! 12"
    and "vx (fst (parse_data rec s)) = rec ! 13 - rec ! 14"
    and "vz (fst (parse_data rec s)) = - (rec ! 15 - rec ! 16)"
    and "pos_x (fst (parse_data rec s)) = py_fadd (pos_x s) (py_round1 (py_truediv (rec ! 13 - rec ! 14) 100))"
    and "pos_y (fst (parse_data rec s)) = py_fadd (pos_y s) (py_round1 (py_truediv (rec ! 11 - rec ! 12) 100))"
    and "pos_z (fst (parse_data rec s)) = py_fadd (pos_z s) (py_round1 (py_truediv (- (rec ! 15 - rec ! 16)) 100))"
proof -
  note sp = parse_data_split [OF assms]
  show "uptime (fst (parse_data rec s)) = rec ! 7 + 255 * rec ! 8"
    unfolding sp by (subst tail_keeps [where g = uptime]) simp_all
  show "height (fst (parse_data rec s)) = rec ! 9 - rec ! 10"
    unfolding sp by (subst tail_keeps [where g = height]) simp_all
  show "vy (fst (parse_data rec s)) = rec ! 11 - rec ! 12"
    unfolding sp by (subst tail_keeps [where g = vy]) simp_all
  show "vx (fst (parse_data rec s)) = rec ! 13 - rec ! 14"
    unfolding sp by (subst tail_keeps [where g = vx]) simp_all
  show "vz (fst (parse_data rec s)) = - (rec ! 15 - rec ! 16)"
    unfolding sp by (subst tail_keeps [where g = vz]) simp_all
  show "pos_x (fst (parse_data rec s)) = py_fadd (pos_x s) (py_round1 (py_truediv (rec ! 13 - rec ! 14) 100))"
    unfolding sp by (subst tail_keeps [where g = pos_x]) simp_all
  show "pos_y (fst (parse_data rec s)) = py_fadd (pos_y s) (py_round1 (py_truediv (rec ! 11 - rec ! 12) 100))"
    unfolding sp by (subst tail_keeps [where g = pos_y]) simp_all
  show "pos_z (fst (parse_data rec s)) = py_fadd (pos_z s) (py_round1 (py_truediv (- (rec ! 15 - rec ! 16)) 100))"
    unfolding sp by (subst tail_keeps [where g = pos_z]) simp_all
qed

lemma parse_data_full:
  assumes "28 \<le> length rec"
  shows "parse_data rec s =
       (s\<lparr>uptime := rec ! 7 + 255 * rec ! 8, height := rec ! 9 - rec ! 10,
          vy := rec ! 11 - rec ! 12, vx := rec ! 13 - rec ! 14, vz := - (rec ! 15 - rec ! 16),
          pos_x := py_fadd (pos_x s) (py_round1 (py_truediv (rec ! 13 - rec ! 14) 100)),
          pos_y := py_fadd (pos_y s) (py_round1 (py_truediv (rec ! 11 - rec ! 12) 100)),
          pos_z := py_fadd (pos_z s) (py_round1 (py_truediv (- (rec ! 15 - rec ! 16)) 100)),
          flytime := rec ! 17 * rec ! 18, battery := rec ! 21,
          get_command := PyStr (str_of_int (rec ! 26) @ str_lit '' '' @ str_of_int (rec ! 27))\<rparr>, None)"
  using assms by (simp add: parse_data_def assign2_ok assign1_ok)

lemma fround_one: "fround 1 = 1"
  using fround_of_int [of 1] by simp

lemma round1_of_100: "py_round1 (py_truediv 100 100) = 1"
proof -
  have "py_truediv 100 100 = 1" by (simp add: py_truediv_def fround_one)
  moreover have "round_half_even (1 * 10) = 10"
    using rhe_of_int [of 10] by simp
  ultimately show ?thesis by (simp add: py_round1_def fround_one)
qed

lemma fadd_int_one:
  assumes "\<bar>k + 1\<bar> \<le> 2 ^ 53"
  shows "py_fadd (of_int k) 1 = of_int (k + 1)"
  using fround_of_int [OF assms] by (simp add: py_fadd_def)

lemma receive_data_state:
  "fst (receive_data evs (s, printed)) = foldl (\<lambda>s ev. fst (try_body ev s)) s evs"
proof (induction evs arbitrary: s printed)
  case Nil
  then show ?case by simp
next
  case (Cons ev evs)
  obtain s' e where t: "try_body ev s = (s', e)" by (cases "try_body ev s")
  show ?case by (cases e) (simp_all add: t Cons.IH)
qed

lemma receive_data_append:
  "receive_data (evs @ evs') sp = receive_data evs' (receive_data evs sp)"
proof (induction evs arbitrary: sp)
  case Nil
  then show ?case by (cases sp) simp
next
  case (Cons ev evs)
  obtain s printed where sp: "sp = (s, printed)" by (cases sp)
  obtain s' e where t: "try_body ev s = (s', e)" by (cases "try_body ev s")
  show ?case by (cases e) (simp_all add: sp t Cons.IH)
qed

lemma on_datagram_vx100:
  assumes "vx100 d"
  shows "pos_x (fst (on_datagram d s)) = py_fadd (pos_x s) 1"
proof -
  have l: "17 \<le> length (unpacked d)" "7 \<le> length d" "13 < length d" "14 < length d"
    using assms(1) by (simp_all add: vx100_def length_unpacked)
  have v: "unpacked d ! 13 - unpacked d ! 14 = 100"
    using assms(1) l by (simp add: vx100_def unpacked_nth)
  have "on_datagram d s = parse_data (unpacked d) (s\<lparr>rec_command_id := 86\<rparr>)"
    using assms(1) l(2) by (intro on_datagram_86) (simp_all add: vx100_def)
  then have "pos_x (fst (on_datagram d s)) = py_fadd (pos_x s) (py_round1 (py_truediv 100 100))"
    by (simp add: parse_data_fields(6) [OF l(1)] v)
  then show ?thesis by (simp add: round1_of_100)
qed

lemma frames_vx100:
  assumes "list_all vx100 ds"
  shows "pos_x (fst (receive_data (map Datagram ds) (s, printed)))
       = repeat (length ds) (\<lambda>x. py_fadd x 1) (pos_x s)"
proof -
  have "pos_x (foldl (\<lambda>s ev. fst (try_body ev s)) s (map Datagram ds))
      = repeat (length ds) (\<lambda>x. py_fadd x 1) (pos_x s)"
    using assms
  proof (induction ds arbitrary: s)
    case Nil
    then show ?case by simp
  next
    case (Cons d ds)
    then show ?case by (simp add: on_datagram_vx100)
  qed
  then show ?thesis by (simp add: receive_data_state)
qed

lemma repeat_fadd_one:
  assumes "\<bar>k\<bar> + int n \<le> 2 ^ 53"
  shows "repeat n (\<lambda>x. py_fadd x 1) (of_int k) = of_int (k + int n)"
  using assms
proof (induction n arbitrary: k)
  case 0
  then show ?case by simp
next
  case (Suc n)
  have "\<bar>k + 1\<bar> \<le> 2 ^ 53" using Suc.prems by simp
  then have "py_fadd (of_int k) 1 = of_int (k + 1)" by (rule fadd_int_one)
  moreover have "\<bar>k + 1\<bar> + int n \<le> 2 ^ 53" using Suc.prems by simp
  then have "repeat n (\<lambda>x. py_fadd x 1) (of_int (k + 1)) = of_int (k + 1 + int n)"
    by (rule Suc.IH)
  ultimately show ?case by (simp add: add.assoc)
qed

lemma repeat8: "repeat 8 f c = f (f (f (f (f (f (f (f c)))))))"
  by (simp add: eval_nat_numeral)

lemma word_reverse_polys:
  "word_reverse (0x31 :: 8 word) = 0x8C" "word_reverse (0x1021 :: 16 word) = 0x8408"
  by code_simp+

lemma crc8_zeros: "CRC8_FUNC [0, 0, 0] = 149"
  by (simp add: CRC8_FUNC_def crc8r_def bytecrc_r8_def repeat8 shift_r8_def word_reverse_polys)

text \<open>The model of the two checksum functions reproduces the takeoff frame of the
  protocol with sequence number 484: \<open>cc 58 00 7c 68 54 00 e4 01 c2 16\<close>.\<close>

lemma takeoff_frame_example:
  "build_packet 0x68 84 484 [] = Inr [0xcc, 0x58, 0x00, 0x7c, 0x68, 0x54, 0x00, 0xe4, 0x01, 0xc2, 0x16]"
proof -
  have c8: "CRC8_FUNC [0xcc, 0x58, 0] = 0x7c"
    by (simp add: CRC8_FUNC_def crc8r_def bytecrc_r8_def repeat8 shift_r8_def word_reverse_polys)
  have c16: "CRC16_FUNC [0xcc, 0x58, 0, 0x7c, 0x68, 0x54, 0, 0xe4, 1] = 0x16c2"
    by (simp add: CRC16_FUNC_def crc16r_def bytecrc_r16_def repeat8 shift_r16_def word_reverse_polys)
  have "spec_body 0x68 84 484 [] = [0xcc, 0x58, 0, 0x7c, 0x68, 0x54, 0, 0xe4, 1]"
    by (simp add: spec_body_def spec_head_def c8)
  then have "spec_frame 0x68 84 484 [] = [0xcc, 0x58, 0x00, 0x7c, 0x68, 0x54, 0x00, 0xe4, 0x01, 0xc2, 0x16]"
    by (simp add: spec_frame_def c16)
  then show ?thesis by (simp add: build_packet_eq is_byte_def)
qed

lemma wifi_frame_invalid: "\<not> spec_checksums_valid [0, 0, 0, 0, 0, 26, 0, 0, 0, 7, 3]"
  by (simp add: spec_checksums_valid_def getslice_def slice_bound_def crc8_zeros)

lemma wifi_frame_accepted:
  "on_datagram [0, 0, 0, 0, 0, 26, 0, 0, 0, 7, 3] s = (s\<lparr>rec_command_id := 26, wifi := 37\<rparr>, None)"
proof -
  have u: "unpacked [0, 0, 0, 0, 0, 26, 0, 0, 0, 7, 3] = [0, 0, 0, 0, 0, 26, 0, 0, 0, 7, 3]"
    by (simp add: unpacked_def)
  have c: "dec_concat 3 7 = 37" by (simp add: dec_concat_def digits.simps)
  have w: "int_of_str (str_of_int 3 @ str_of_int 7) = Inr 37"
    using int_of_str_concat [of 3 7] by (simp add: c)
  show ?thesis
    by (subst on_datagram_eq) (simp_all add: dec_concat_zero u item_def w)
qed

lemma spec_frame_cmd_bytes:
  "spec_frame pac_type cmd_id seq_id data ! 5 = cmd_id mod 256"
  "spec_frame pac_type cmd_id seq_id data ! 6 = cmd_id div 256"
  by (simp_all add: spec_frame_def spec_body_def spec_head_def)

lemma unpacked_frame:
  assumes "list_all is_byte f" and "length f \<le> 1518"
  shows "unpacked (map word_of_int f) = f"
proof -
  have "map uint (map word_of_int f :: byte list) = f" using assms(1) by (rule map_uint_bytes)
  then show ?thesis using assms(2) by (simp add: unpacked_def del: map_map)
qed

lemma on_datagram_frame_id:
  assumes "is_byte pac_type" and "0 \<le> cmd_id" and "cmd_id < 65536"
    and "0 \<le> seq_id" and "seq_id < 65536"
    and "list_all is_byte data" and "length data \<le> 8180"
  shows "rec_command_id (fst (on_datagram (map word_of_int (spec_frame pac_type cmd_id seq_id data)) s))
       = dec_concat (nat (cmd_id div 256)) (nat (cmd_id mod 256))"
proof -
  define f where "f = spec_frame pac_type cmd_id seq_id data"
  have len: "length f = 11 + length data" unfolding f_def by (rule spec_frame_fields)
  have b: "is_byte (cmd_id mod 256)" "is_byte (cmd_id div 256)"
    using assms(2,3) by (simp_all add: is_byte_mod is_byte_div)
  have "unat (map word_of_int f ! 6 :: byte) = nat (cmd_id div 256)"
    "unat (map word_of_int f ! 5 :: byte) = nat (cmd_id mod 256)"
    using len uint_word_of_int_byte [OF b(1)] uint_word_of_int_byte [OF b(2)]
    by (simp_all add: f_def spec_frame_cmd_bytes flip: nat_uint_eq)
  moreover have "7 \<le> length (map word_of_int f :: byte list)" using len by simp
  ultimately show ?thesis
    unfolding f_def [symmetric] by (simp add: on_datagram_id)
qed

lemma short_telemetry_frame:
  "on_datagram [0, 0, 0, 0, 0, 86, 0, 1, 2, 9, 4, 20, 5, 100, 0, 7] s
     = (s\<lparr>rec_command_id := 86, uptime := 511, height := 5, vy := 15, vx := 100\<rparr>, Some IndexError)"
proof -
  define d :: "byte list" where "d = [0, 0, 0, 0, 0, 86, 0, 1, 2, 9, 4, 20, 5, 100, 0, 7]"
  have h: "dec_concat (unat (d ! 6)) (unat (d ! 5)) = 86"
    by (simp add: d_def dec_concat_zero)
  have u: "unpacked d = [0, 0, 0, 0, 0, 86, 0, 1, 2, 9, 4, 20, 5, 100, 0, 7]"
    by (simp add: unpacked_def d_def)
  have od: "on_datagram d s = parse_data (unpacked d) (s\<lparr>rec_command_id := 86\<rparr>)"
    using h by (intro on_datagram_86) (simp_all add: d_def)
  show ?thesis
    unfolding d_def [symmetric] od u by (simp add: parse_data_def assign2_def item_def)
qed

lemma connect_created:
  "connect now created
     = (created\<lparr>sent := [map word_of_int (map int (str_lit ''conn_req:'') @ [150, 23]),
                        map word_of_int (nonstick_frame ''get_ssid'' 1)],
               sequence := 2\<rparr>, None)"
proof -
  have p: "to_bytes VIDEO_PORT 2 = Inr [150, 23]"
    by (simp add: VIDEO_PORT_def to_bytes_2)
  have b: "bytes (map int (str_lit ''conn_req:'') @ [150, 23])
      = Inr (map word_of_int (map int (str_lit ''conn_req:'') @ [150, 23]))"
    by (intro bytes_ok) (simp add: str_lit_def is_byte_def)
  show ?thesis
    unfolding connect_def p and_then.simps b
    by (simp add: send_to_nonstick created_fields)
qed

section \<open>The stick payload\<close>

text \<open>
  Claim C5. For every speed flag in \<open>{0, 1}\<close> and four channel values each in
  \<open>0 .. 2047\<close> (and whatever the clock reads), the payload \<open>move_to\<close> builds is exactly
  11 bytes, and its first 6 bytes are the little-endian encoding of the packed integer
  \<open>(speed << 44) | (channel0 << 33) | (channel1 << 22) | (channel2 << 11) | channel3\<close>:
  they are bytes and their little-endian value is that integer. With the default neutral
  move vector and speed flag 0 the six bytes are \<open>00 04 20 00 01 08\<close>.
\<close>

theorem stick_payload:
  assumes "valid_clock now" and "speed s = 0 \<or> speed s = 1"
    and "length move = 4" and "list_all valid_channel move"
  shows "\<exists>payload.
           move_to now move s = Inr payload
         \<and> length payload = 11
         \<and> list_all is_byte payload
         \<and> from_le (getslice payload 0 6) = spec_stick_packed (speed s) move
         \<and> (speed s = 0 \<and> move = default_move
              \<longrightarrow> getslice payload 0 6 = [0x00, 0x04, 0x20, 0x00, 0x01, 0x08])"
proof -
  define P where "P = stick_sum (speed s) move"
  have P: "0 \<le> P" "P < 2 ^ 48" "P = spec_stick_packed (speed s) move"
    unfolding P_def using assms(2-4) by (rule stick_sum_range)+
  define le where "le = map (\<lambda>k. (P div 256 ^ k) mod 256) [0..<6]"
  have tb: "to_bytes P 6 = Inr le"
    using P(1,2) by (simp add: to_bytes_cases le_def)
  obtain m0 m1 where t: "get_current_time now
      = Inr [int (hour now), int (minute now), int (second now), m0, m1]"
    and mb: "is_byte m0" "is_byte m1"
    using get_current_time_ok [OF assms(1)] by blast
  have clk: "is_byte (int (hour now))" "is_byte (int (minute now))" "is_byte (int (second now))"
    using assms(1) by (simp_all add: valid_clock_def is_byte_def)
  have mv: "move_to now move s = Inr (le @ [int (hour now), int (minute now), int (second now), m0, m1])"
    using assms(3) by (simp add: move_to_eq P_def [symmetric] tb t)
  have l6: "length le = 6" by (simp add: le_def)
  have g: "getslice (le @ [int (hour now), int (minute now), int (second now), m0, m1]) 0 6 = le"
    using getslice_prefix [OF l6] by simp
  define payload where "payload = le @ [int (hour now), int (minute now), int (second now), m0, m1]"
  have f1: "move_to now move s = Inr payload" by (simp add: mv payload_def)
  have f2: "length payload = 11" by (simp add: payload_def l6)
  have f3: "list_all is_byte payload"
    using to_bytes_value(3) [OF tb] mb clk by (simp add: payload_def)
  have f4: "from_le (getslice payload 0 6) = spec_stick_packed (speed s) move"
    unfolding payload_def g using to_bytes_value(1) [OF tb] P(3) by simp
  have f5: "getslice payload 0 6 = [0x00, 0x04, 0x20, 0x00, 0x01, 0x08]"
    if "speed s = 0 \<and> move = default_move"
  proof -
    have "P = 8800390087680"
      using that by (simp add: P_def stick_sum_def default_move_def eval_nat_numeral nth_Cons')
    then have "le = [0x00, 0x04, 0x20, 0x00, 0x01, 0x08]" by (simp add: le_def upt_rec)
    then show ?thesis unfolding payload_def g .
  qed
  show ?thesis using f1 f2 f3 f4 f5 by blast
qed


text \<open>The default move vector on a new object, at 12:34:56.789012.\<close>

theorem stick_payload_witness:
  "valid_clock \<lparr>hour = 12, minute = 34, second = 56, microsecond = 789012\<rparr>
   \<and> (speed created = 0 \<or> speed created = 1)
   \<and> length default_move = 4 \<and> list_all valid_channel default_move
   \<and> (\<exists>payload.
           move_to \<lparr>hour = 12, minute = 34, second = 56, microsecond = 789012\<rparr> default_move created
             = Inr payload
         \<and> length payload = 11
         \<and> list_all is_byte payload
         \<and> from_le (getslice payload 0 6) = spec_stick_packed (speed created) default_move
         \<and> getslice payload 0 6 = [0x00, 0x04, 0x20, 0x00, 0x01, 0x08])"
proof -
  have h: "valid_clock \<lparr>hour = 12, minute = 34, second = 56, microsecond = 789012\<rparr>"
    "speed created = 0" "length default_move = 4" "list_all valid_channel default_move"
    by (simp_all add: valid_clock_def created_def init_state_def default_move_def valid_channel_def
        list_all_iff)
  from stick_payload [of "\<lparr>hour = 12, minute = 34, second = 56, microsecond = 789012\<rparr>"
      created default_move] h
  show ?thesis by simp
qed

section \<open>Channel values of a stick send\<close>

text \<open>
  Claim C8, amended. A stick send does not check the channel values of its move vector,
  and there is no InvalidChannelValue error. For a move vector of four channels,
  whatever their values, the send is decided by the sum
  \<open>(speed << 44) + (ch0 << 33) + (ch1 << 22) + (ch2 << 11) + ch3\<close> alone: when the sum is
  within \<open>0 .. 2 ^ 48 - 1\<close> the payload is encoded from it (the bits of an out-of-range
  channel fall into the neighbouring fields) and the frame is transmitted; when the sum
  is negative or at least \<open>2 ^ 48\<close> the send raises OverflowError after the counter was
  reset to 0, and no frame is sent.
\<close>

theorem stick_channels_unchecked:
  assumes "valid_clock now" and "length move = 4"
  shows "(0 \<le> stick_sum (speed s) move \<and> stick_sum (speed s) move < 2 ^ 48
            \<longrightarrow> (\<exists>dgram. send_to now ''stick'' move s
                              = (s\<lparr>sent := sent s @ [dgram], sequence := 1\<rparr>, None)
                          \<and> from_le (map uint (getslice dgram 9 15)) = stick_sum (speed s) move))
       \<and> (stick_sum (speed s) move < 0 \<or> 2 ^ 48 \<le> stick_sum (speed s) move
            \<longrightarrow> send_to now ''stick'' move s = (s\<lparr>sequence := 0\<rparr>, Some OverflowError))"
proof (intro conjI impI)
  assume "stick_sum (speed s) move < 0 \<or> 2 ^ 48 \<le> stick_sum (speed s) move"
  then have "move_to now move s = Inl OverflowError"
    using assms(2) by (intro move_to_overflow)
  then show "send_to now ''stick'' move s = (s\<lparr>sequence := 0\<rparr>, Some OverflowError)"
    by (simp add: send_to_stick)
next
  assume a: "0 \<le> stick_sum (speed s) move \<and> stick_sum (speed s) move < 2 ^ 48"
  with send_to_stick_ok [OF assms, of s]
  obtain le t where st: "send_to now ''stick'' move s
      = (s\<lparr>sent := sent s @ [map word_of_int (spec_frame 0x60 80 0 (le @ t))], sequence := 1\<rparr>, None)"
    and tb: "to_bytes (stick_sum (speed s) move) 6 = Inr le"
    and t: "length t = 5" "list_all is_byte t"
    by auto
  have le: "from_le le = stick_sum (speed s) move" "length le = 6" "list_all is_byte le"
    using tb by (rule to_bytes_value)+
  define f where "f = spec_frame 0x60 80 0 (le @ t)"
  have pl: "getslice f 9 (- 2) = le @ t" unfolding f_def by (rule spec_frame_fields)
  have len: "length f = 22" unfolding f_def using le t by (simp add: spec_frame_fields)
  have "getslice f 9 15 = take 6 (getslice f 9 (- 2))"
    using len by (simp add: getslice_def slice_bound_def take_drop)
  also have "\<dots> = le" using pl le(2) by simp
  finally have g: "getslice f 9 15 = le" .
  have "map uint (map word_of_int le :: byte list) = le" using le(3) by (rule map_uint_bytes)
  then have "from_le (map uint (getslice (map word_of_int f :: byte list) 9 15)) = stick_sum (speed s) move"
    unfolding getslice_map g using le(1) by simp
  with st show "\<exists>dgram. send_to now ''stick'' move s
                    = (s\<lparr>sent := sent s @ [dgram], sequence := 1\<rparr>, None)
                \<and> from_le (map uint (getslice dgram 9 15)) = stick_sum (speed s) move"
    unfolding f_def by blast
qed

text \<open>Channel 0 at 2048, which is sent, and at 32768, which overflows the six bytes.\<close>

theorem stick_channels_unchecked_witness:
  "valid_clock \<lparr>hour = 0, minute = 0, second = 0, microsecond = 0\<rparr>
   \<and> length [2048, 1024, 1024, 1024 :: int] = 4 \<and> length [32768, 0, 0, 0 :: int] = 4
   \<and> 0 \<le> stick_sum (speed created) [2048, 1024, 1024, 1024]
   \<and> stick_sum (speed created) [2048, 1024, 1024, 1024] < 2 ^ 48
   \<and> 2 ^ 48 \<le> stick_sum (speed created) [32768, 0, 0, 0]
   \<and> (\<exists>dgram. send_to \<lparr>hour = 0, minute = 0, second = 0, microsecond = 0\<rparr> ''stick''
                   [2048, 1024, 1024, 1024] created
                 = (created\<lparr>sent := sent created @ [dgram], sequence := 1\<rparr>, None)
             \<and> from_le (map uint (getslice dgram 9 15))
                 = stick_sum (speed created) [2048, 1024, 1024, 1024])
   \<and> send_to \<lparr>hour = 0, minute = 0, second = 0, microsecond = 0\<rparr> ''stick'' [32768, 0, 0, 0] created
      = (created\<lparr>sequence := 0\<rparr>, Some OverflowError)"
proof -
  define now where "now = \<lparr>hour = 0, minute = 0, second = 0, microsecond = 0\<rparr>"
  have h: "valid_clock now" "length [2048, 1024, 1024, 1024 :: int] = 4"
    "length [32768, 0, 0, 0 :: int] = 4"
    by (simp_all add: now_def valid_clock_def)
  have r: "0 \<le> stick_sum (speed created) [2048, 1024, 1024, 1024]"
    "stick_sum (speed created) [2048, 1024, 1024, 1024] < 2 ^ 48"
    "2 ^ 48 \<le> stick_sum (speed created) [32768, 0, 0, 0]"
    by (simp_all add: stick_sum_def created_fields)
  from stick_channels_unchecked [OF h(1,2), of created]
    stick_channels_unchecked [OF h(1,3), of created] h r
  show ?thesis unfolding now_def by blast
qed

text \<open>
  As the claim states it, with a rejection before anything is sent, it fails: with
  channel 0 at 2048 the send raises nothing and transmits a frame, whose payload is the
  one of channel 0 at 0 with the speed flag set.
\<close>

theorem stick_out_of_range_is_sent:
  "\<not> valid_channel 2048
   \<and> snd (send_to \<lparr>hour = 0, minute = 0, second = 0, microsecond = 0\<rparr> ''stick''
            [2048, 1024, 1024, 1024] created) = None
   \<and> length (sent (fst (send_to \<lparr>hour = 0, minute = 0, second = 0, microsecond = 0\<rparr> ''stick''
            [2048, 1024, 1024, 1024] created))) = 1
   \<and> move_to \<lparr>hour = 0, minute = 0, second = 0, microsecond = 0\<rparr> [2048, 1024, 1024, 1024] created
      = move_to \<lparr>hour = 0, minute = 0, second = 0, microsecond = 0\<rparr> [0, 1024, 1024, 1024]
          (speed_switch created)"
proof -
  define now where "now = \<lparr>hour = 0, minute = 0, second = 0, microsecond = 0\<rparr>"
  have h: "valid_clock now" "length [2048, 1024, 1024, 1024 :: int] = 4"
    by (simp_all add: now_def valid_clock_def)
  have r: "0 \<le> stick_sum (speed created) [2048, 1024, 1024, 1024]"
    "stick_sum (speed created) [2048, 1024, 1024, 1024] < 2 ^ 48"
    by (simp_all add: stick_sum_def created_fields)
  from send_to_stick_ok [OF h r]
  have a: "snd (send_to now ''stick'' [2048, 1024, 1024, 1024] created) = None"
    and b: "length (sent (fst (send_to now ''stick'' [2048, 1024, 1024, 1024] created))) = 1"
    by (auto simp: created_fields)
  have "stick_sum (speed created) [2048, 1024, 1024, 1024]
      = stick_sum (speed (speed_switch created)) [0, 1024, 1024, 1024]"
    by (simp add: stick_sum_def speed_switch_def created_fields)
  then have c: "move_to now [2048, 1024, 1024, 1024] created
      = move_to now [0, 1024, 1024, 1024] (speed_switch created)"
    by (simp add: move_to_eq)
  have d: "\<not> valid_channel 2048" by (simp add: valid_channel_def)
  show ?thesis using a b c d unfolding now_def by blast
qed

section \<open>The sequence counter\<close>

text \<open>
  Claim C3, amended. The sequence counter starts at 1, and the first frame of a session,
  the \<open>get_ssid\<close> query of \<open>connect\<close>, carries 1. Every non-stick send of a
  catalogue command made while the counter is within \<open>0 .. 65535\<close> transmits the current
  counter value and then increments it by 1, so consecutive such sends carry strictly
  increasing sequence numbers. A stick send resets the counter to 0; when it transmits,
  as it does with the default move vector, the stick frame carries sequence 0 and the
  counter becomes 1, so the non-stick send that follows carries 1 and leaves 2; when it
  raises, the counter stays 0.
\<close>

theorem sequence_discipline:
  assumes "cmd \<in> {''takeoff'', ''land'', ''get_ssid''}"
    and "0 \<le> sequence s" and "sequence s \<le> 65535"
  shows "sequence created = 1
       \<and> (\<exists>conn_req dgram.
             connect now created = (created\<lparr>sent := [conn_req, dgram], sequence := 2\<rparr>, None)
             \<and> frame_seq dgram = 1)
       \<and> (\<exists>dgram. send_to now cmd move s
                     = (s\<lparr>sent := sent s @ [dgram], sequence := sequence s + 1\<rparr>, None)
                 \<and> frame_seq dgram = sequence s)
       \<and> (case send_to now ''stick'' move s of
             (s', None) \<Rightarrow>
               (\<exists>dgram. s' = s\<lparr>sent := sent s @ [dgram], sequence := 1\<rparr> \<and> frame_seq dgram = 0)
               \<and> (\<exists>dgram. send_to now cmd move s'
                             = (s'\<lparr>sent := sent s' @ [dgram], sequence := 2\<rparr>, None)
                         \<and> frame_seq dgram = 1)
           | (s', Some e) \<Rightarrow> s' = s\<lparr>sequence := 0\<rparr>)
       \<and> (valid_clock now \<and> (speed s = 0 \<or> speed s = 1)
            \<longrightarrow> snd (send_to now ''stick'' default_move s) = None)"
proof (intro conjI)
  show "sequence created = 1" by (rule created_fields)
  have "frame_seq (map word_of_int (nonstick_frame ''get_ssid'' 1)) = 1"
    by (simp add: frame_seq_nonstick)
  with connect_created [of now]
  show "\<exists>conn_req dgram.
          connect now created = (created\<lparr>sent := [conn_req, dgram], sequence := 2\<rparr>, None)
          \<and> frame_seq dgram = 1"
    by blast
  have "send_to now cmd move s
      = (s\<lparr>sent := sent s @ [map word_of_int (nonstick_frame cmd (sequence s))],
           sequence := sequence s + 1\<rparr>, None)"
    using assms by (simp add: send_to_nonstick)
  moreover have "frame_seq (map word_of_int (nonstick_frame cmd (sequence s))) = sequence s"
    using assms by (simp add: frame_seq_nonstick)
  ultimately show "\<exists>dgram. send_to now cmd move s
          = (s\<lparr>sent := sent s @ [dgram], sequence := sequence s + 1\<rparr>, None)
        \<and> frame_seq dgram = sequence s"
    by blast
  show "case send_to now ''stick'' move s of
             (s', None) \<Rightarrow>
               (\<exists>dgram. s' = s\<lparr>sent := sent s @ [dgram], sequence := 1\<rparr> \<and> frame_seq dgram = 0)
               \<and> (\<exists>dgram. send_to now cmd move s'
                             = (s'\<lparr>sent := sent s' @ [dgram], sequence := 2\<rparr>, None)
                         \<and> frame_seq dgram = 1)
           | (s', Some e) \<Rightarrow> s' = s\<lparr>sequence := 0\<rparr>"
  proof (cases "move_to now move s")
    case (Inl e)
    then show ?thesis by (simp add: send_to_stick)
  next
    case (Inr data)
    show ?thesis
    proof (cases "\<not> 8180 < length data \<and> list_all is_byte data")
      case False
      then show ?thesis using Inr by (auto simp: send_to_stick)
    next
      case True
      define d0 :: "byte list" where "d0 = map word_of_int (spec_frame 0x60 80 0 data)"
      define s1 where "s1 = s\<lparr>sent := sent s @ [d0], sequence := 1\<rparr>"
      have st: "send_to now ''stick'' move s = (s1, None)"
        using Inr True by (simp add: send_to_stick s1_def d0_def)
      have f0: "frame_seq d0 = 0"
        unfolding d0_def using True by (intro frame_seq_spec_frame) (simp_all add: is_byte_def)
      have nx: "send_to now cmd move s1
          = (s1\<lparr>sent := sent s1 @ [map word_of_int (nonstick_frame cmd 1)], sequence := 2\<rparr>, None)"
        using assms(1) by (simp add: send_to_nonstick s1_def)
      have f1: "frame_seq (map word_of_int (nonstick_frame cmd 1)) = 1"
        by (simp add: frame_seq_nonstick)
      have "(\<exists>dgram. s1 = s\<lparr>sent := sent s @ [dgram], sequence := 1\<rparr> \<and> frame_seq dgram = 0)
          \<and> (\<exists>dgram. send_to now cmd move s1
                      = (s1\<lparr>sent := sent s1 @ [dgram], sequence := 2\<rparr>, None)
                  \<and> frame_seq dgram = 1)"
        using s1_def f0 nx f1 by blast
      then show ?thesis unfolding st by simp
    qed
  qed
  show "valid_clock now \<and> (speed s = 0 \<or> speed s = 1)
          \<longrightarrow> snd (send_to now ''stick'' default_move s) = None"
  proof
    assume a: "valid_clock now \<and> (speed s = 0 \<or> speed s = 1)"
    have d: "length default_move = 4" "list_all valid_channel default_move"
      by (simp_all add: default_move_def valid_channel_def list_all_iff)
    have sp: "speed s = 0 \<or> speed s = 1" using a by simp
    have "0 \<le> stick_sum (speed s) default_move" "stick_sum (speed s) default_move < 2 ^ 48"
      using stick_sum_range(1,2) [OF sp d] by simp_all
    with a d(1) move_to_valid [of now default_move s]
    obtain le t where "move_to now default_move s = Inr (le @ t)"
      "to_bytes (stick_sum (speed s) default_move) 6 = Inr le" "length t = 5" "list_all is_byte t"
      by auto
    then show "snd (send_to now ''stick'' default_move s) = None"
      using to_bytes_value(2,3) [of "stick_sum (speed s) default_move" 6 le]
      by (simp add: send_to_stick)
  qed
qed


text \<open>A takeoff and a stick send with the default move vector on a new object.\<close>

theorem sequence_discipline_witness:
  "''takeoff'' \<in> {''takeoff'', ''land'', ''get_ssid''}
   \<and> 0 \<le> sequence created \<and> sequence created \<le> 65535
   \<and> valid_clock \<lparr>hour = 0, minute = 0, second = 0, microsecond = 0\<rparr>
   \<and> speed created = 0
   \<and> (\<exists>dgram. send_to \<lparr>hour = 0, minute = 0, second = 0, microsecond = 0\<rparr> ''takeoff'' default_move created
                 = (created\<lparr>sent := sent created @ [dgram], sequence := sequence created + 1\<rparr>, None)
             \<and> frame_seq dgram = sequence created)
   \<and> snd (send_to \<lparr>hour = 0, minute = 0, second = 0, microsecond = 0\<rparr> ''stick'' default_move created) = None"
proof -
  have h: "0 \<le> sequence created" "sequence created \<le> 65535" "speed created = 0"
    "valid_clock \<lparr>hour = 0, minute = 0, second = 0, microsecond = 0\<rparr>"
    by (simp_all add: created_fields valid_clock_def)
  from sequence_discipline [of "''takeoff''" created
      "\<lparr>hour = 0, minute = 0, second = 0, microsecond = 0\<rparr>" default_move] h
  show ?thesis by blast
qed

text \<open>
  As the claim states it, for every send, it fails in two places. After 65535 sends
  from the start the counter is 65536 and a further non-stick send raises: it transmits
  nothing and increments nothing. A stick send with an empty move vector raises after
  the reset, and the non-stick send that follows carries 0, not 1.
\<close>

theorem sequence_discipline_fails:
  "sequence (send_all \<lparr>hour = 0, minute = 0, second = 0, microsecond = 0\<rparr>
              (replicate 65535 ''takeoff'') created) = 65536
   \<and> send_to \<lparr>hour = 0, minute = 0, second = 0, microsecond = 0\<rparr> ''takeoff'' default_move
        (send_all \<lparr>hour = 0, minute = 0, second = 0, microsecond = 0\<rparr>
           (replicate 65535 ''takeoff'') created)
      = (send_all \<lparr>hour = 0, minute = 0, second = 0, microsecond = 0\<rparr>
           (replicate 65535 ''takeoff'') created, Some OverflowError)
   \<and> send_to \<lparr>hour = 0, minute = 0, second = 0, microsecond = 0\<rparr> ''stick'' [] created
      = (created\<lparr>sequence := 0\<rparr>, Some IndexError)
   \<and> frame_seq (last (sent (fst (send_to \<lparr>hour = 0, minute = 0, second = 0, microsecond = 0\<rparr>
        ''takeoff'' default_move (created\<lparr>sequence := 0\<rparr>))))) = 0"
proof -
  define now where "now = \<lparr>hour = 0, minute = 0, second = 0, microsecond = 0\<rparr>"
  have sq: "sequence (send_all now (replicate 65535 ''takeoff'') created) = 65536"
    by (subst send_all_sequence) (simp_all add: created_fields)
  have ov: "send_to now ''takeoff'' default_move (send_all now (replicate 65535 ''takeoff'') created)
      = (send_all now (replicate 65535 ''takeoff'') created, Some OverflowError)"
    by (simp add: send_to_nonstick sq)
  have st: "send_to now ''stick'' [] created = (created\<lparr>sequence := 0\<rparr>, Some IndexError)"
    by (simp add: send_to_stick move_to_short)
  have nx: "frame_seq (last (sent (fst (send_to now ''takeoff'' default_move (created\<lparr>sequence := 0\<rparr>))))) = 0"
    by (simp add: send_to_nonstick frame_seq_nonstick)
  show ?thesis using sq ov st nx unfolding now_def by blast
qed

text \<open>
  Claim C10. \<open>build_packet\<close> serialises the sequence number into exactly two bytes: it
  returns a frame only for a sequence number in \<open>0 .. 65535\<close>, so a non-stick send
  succeeds only while the counter is at most 65535. The counter grows by 1 with every
  such send, so after 65536 or more consecutive non-stick sends (from any counter value
  a session can have) the counter is 65536 and the next send fails with OverflowError,
  transmitting nothing and leaving the counter as it is: no wrap-around, no truncation.
\<close>

theorem sequence_two_bytes:
  "(build_packet pac_type cmd_id seq_id data = Inr frame
      \<longrightarrow> 0 \<le> seq_id \<and> seq_id \<le> 65535 \<and> from_le (getslice frame 7 9) = seq_id)
   \<and> (cmd \<noteq> ''stick'' \<and> snd (send_to now cmd move s) = None
      \<longrightarrow> 0 \<le> sequence s \<and> sequence s \<le> 65535)
   \<and> (0 \<le> sequence s \<and> sequence s \<le> 65536
       \<and> set cmds \<subseteq> {''takeoff'', ''land'', ''get_ssid''} \<and> 65536 \<le> length cmds
       \<and> cmd \<in> {''takeoff'', ''land'', ''get_ssid''}
      \<longrightarrow> sequence (send_all now cmds s) = 65536
          \<and> send_to now cmd move (send_all now cmds s) = (send_all now cmds s, Some OverflowError))"
proof (intro conjI impI)
  assume "build_packet pac_type cmd_id seq_id data = Inr frame"
  then have r: "\<not> (seq_id < 0 \<or> 65536 \<le> seq_id)" and f: "frame = spec_frame pac_type cmd_id seq_id data"
    by (auto simp: build_packet_eq split: if_splits)
  show "0 \<le> seq_id" "seq_id \<le> 65535" using r by auto
  show "from_le (getslice frame 7 9) = seq_id" unfolding f by (rule spec_frame_fields)
next
  assume a: "cmd \<noteq> ''stick'' \<and> snd (send_to now cmd move s) = None"
  have "cmd \<in> {''takeoff'', ''land'', ''get_ssid''}"
  proof (rule ccontr)
    assume "cmd \<notin> {''takeoff'', ''land'', ''get_ssid''}"
    with a have "cmd \<notin> {''takeoff'', ''land'', ''stick'', ''get_ssid''}" by simp
    from send_to_unknown [OF this] a show False by simp
  qed
  from send_to_nonstick [OF this, of now move s] a
  have "\<not> (sequence s < 0 \<or> 65536 \<le> sequence s)" by (auto split: if_splits)
  then show "0 \<le> sequence s" "sequence s \<le> 65535" by auto
next
  assume a: "0 \<le> sequence s \<and> sequence s \<le> 65536
       \<and> set cmds \<subseteq> {''takeoff'', ''land'', ''get_ssid''} \<and> 65536 \<le> length cmds
       \<and> cmd \<in> {''takeoff'', ''land'', ''get_ssid''}"
  then have "sequence (send_all now cmds s) = min (sequence s + int (length cmds)) 65536"
    by (intro send_all_sequence) simp_all
  then show sq: "sequence (send_all now cmds s) = 65536" using a by simp
  show "send_to now cmd move (send_all now cmds s) = (send_all now cmds s, Some OverflowError)"
    using a by (simp add: send_to_nonstick sq)
qed


text \<open>The takeoff frame with sequence number 1, and 65536 takeoff sends on a new object.\<close>

theorem sequence_two_bytes_witness:
  "build_packet 0x68 84 1 [] = Inr (spec_frame 0x68 84 1 [])
   \<and> ''takeoff'' \<noteq> ''stick''
   \<and> snd (send_to \<lparr>hour = 0, minute = 0, second = 0, microsecond = 0\<rparr> ''takeoff'' default_move created) = None
   \<and> 0 \<le> sequence created \<and> sequence created \<le> 65536
   \<and> set (replicate 65536 ''takeoff'') \<subseteq> {''takeoff'', ''land'', ''get_ssid''}
   \<and> 65536 \<le> length (replicate 65536 ''takeoff'')
   \<and> ''takeoff'' \<in> {''takeoff'', ''land'', ''get_ssid''}
   \<and> from_le (getslice (spec_frame 0x68 84 1 []) 7 9) = 1
   \<and> sequence created \<le> 65535
   \<and> sequence (send_all \<lparr>hour = 0, minute = 0, second = 0, microsecond = 0\<rparr>
         (replicate 65536 ''takeoff'') created) = 65536
   \<and> send_to \<lparr>hour = 0, minute = 0, second = 0, microsecond = 0\<rparr> ''takeoff'' default_move
        (send_all \<lparr>hour = 0, minute = 0, second = 0, microsecond = 0\<rparr>
           (replicate 65536 ''takeoff'') created)
      = (send_all \<lparr>hour = 0, minute = 0, second = 0, microsecond = 0\<rparr>
           (replicate 65536 ''takeoff'') created, Some OverflowError)"
proof -
  define now where "now = \<lparr>hour = 0, minute = 0, second = 0, microsecond = 0\<rparr>"
  have h1: "build_packet 0x68 84 1 [] = Inr (spec_frame 0x68 84 1 [])"
    by (simp add: build_packet_eq is_byte_def)
  have h2: "''takeoff'' \<noteq> ''stick'' \<and> snd (send_to now ''takeoff'' default_move created) = None"
    by (simp add: send_to_nonstick created_fields)
  have h3: "0 \<le> sequence created \<and> sequence created \<le> 65536
       \<and> set (replicate 65536 ''takeoff'') \<subseteq> {''takeoff'', ''land'', ''get_ssid''}
       \<and> 65536 \<le> length (replicate 65536 ''takeoff'')
       \<and> ''takeoff'' \<in> {''takeoff'', ''land'', ''get_ssid''}"
    by (simp add: created_fields)
  from sequence_two_bytes [of "0x68" 84 1 "[]" "spec_frame 0x68 84 1 []" "''takeoff''" now
      default_move created "replicate 65536 ''takeoff''"] h1 h2 h3
  show ?thesis unfolding now_def by blast
qed

section \<open>The telemetry reduction\<close>

text \<open>
  Claim C6, amended. For every inbound frame of at least 17 bytes dispatched with
  command id 86, the telemetry reduction sets uptime to \<open>byte[7] + 255 * byte[8]\<close>,
  height to \<open>byte[9] - byte[10]\<close>, vy to \<open>byte[11] - byte[12]\<close>, vx to
  \<open>byte[13] - byte[14]\<close> and vz to \<open>- (byte[15] - byte[16])\<close>, and adds to each of x, y, z,
  in floating point, \<open>round(v / 100, 1)\<close> of the velocity just computed. A frame whose
  bytes yield \<open>vx = 100\<close> adds exactly 1.0 to x, so n such frames add 1.0 to x n times;
  from an integer-valued x, such as the 0 of a new or reset object, that is exactly n
  more (while the sum stays within \<open>2 ^ 53\<close>).
\<close>

theorem telemetry_reduction:
  "(17 \<le> length dgram \<and> dec_concat (unat (dgram ! 6)) (unat (dgram ! 5)) = 86 \<longrightarrow>
      (let rec = unpacked dgram; s' = fst (on_datagram dgram s)
       in uptime s' = rec ! 7 + 255 * rec ! 8
        \<and> height s' = rec ! 9 - rec ! 10
        \<and> vy s' = rec ! 11 - rec ! 12
        \<and> vx s' = rec ! 13 - rec ! 14
        \<and> vz s' = - (rec ! 15 - rec ! 16)
        \<and> pos_x s' = py_fadd (pos_x s) (py_round1 (py_truediv (vx s') 100))
        \<and> pos_y s' = py_fadd (pos_y s) (py_round1 (py_truediv (vy s') 100))
        \<and> pos_z s' = py_fadd (pos_z s) (py_round1 (py_truediv (vz s') 100))
        \<and> (vx s' = 100 \<longrightarrow> pos_x s' = py_fadd (pos_x s) 1)))
   \<and> (list_all vx100 ds \<longrightarrow>
        pos_x (fst (receive_data (map Datagram ds) (s, printed)))
          = repeat (length ds) (\<lambda>x. py_fadd x 1) (pos_x s)
        \<and> (pos_x s = of_int k \<and> \<bar>k\<bar> + int (length ds) \<le> 2 ^ 53 \<longrightarrow>
             pos_x (fst (receive_data (map Datagram ds) (s, printed)))
               = of_int k + of_int (int (length ds))))"
proof (intro conjI impI)
  assume a: "17 \<le> length dgram \<and> dec_concat (unat (dgram ! 6)) (unat (dgram ! 5)) = 86"
  then have l: "17 \<le> length (unpacked dgram)" by (simp add: length_unpacked)
  have od: "on_datagram dgram s = parse_data (unpacked dgram) (s\<lparr>rec_command_id := 86\<rparr>)"
    using a by (intro on_datagram_86) simp_all
  note f = parse_data_fields [OF l, of "s\<lparr>rec_command_id := 86\<rparr>"]
  show "let rec = unpacked dgram; s' = fst (on_datagram dgram s)
       in uptime s' = rec ! 7 + 255 * rec ! 8
        \<and> height s' = rec ! 9 - rec ! 10
        \<and> vy s' = rec ! 11 - rec ! 12
        \<and> vx s' = rec ! 13 - rec ! 14
        \<and> vz s' = - (rec ! 15 - rec ! 16)
        \<and> pos_x s' = py_fadd (pos_x s) (py_round1 (py_truediv (vx s') 100))
        \<and> pos_y s' = py_fadd (pos_y s) (py_round1 (py_truediv (vy s') 100))
        \<and> pos_z s' = py_fadd (pos_z s) (py_round1 (py_truediv (vz s') 100))
        \<and> (vx s' = 100 \<longrightarrow> pos_x s' = py_fadd (pos_x s) 1)"
    unfolding Let_def od f by (simp add: round1_of_100)
next
  assume "list_all vx100 ds"
  then show "pos_x (fst (receive_data (map Datagram ds) (s, printed)))
          = repeat (length ds) (\<lambda>x. py_fadd x 1) (pos_x s)"
    by (rule frames_vx100)
next
  assume a: "list_all vx100 ds" and b: "pos_x s = of_int k \<and> \<bar>k\<bar> + int (length ds) \<le> 2 ^ 53"
  have "pos_x (fst (receive_data (map Datagram ds) (s, printed)))
      = repeat (length ds) (\<lambda>x. py_fadd x 1) (of_int k)"
    using frames_vx100 [OF a] b by simp
  also have "\<dots> = of_int (k + int (length ds))"
    using b by (intro repeat_fadd_one) simp
  finally show "pos_x (fst (receive_data (map Datagram ds) (s, printed)))
      = of_int k + of_int (int (length ds))"
    by simp
qed


text \<open>A frame of 17 bytes with uptime 511, height 5, vy 15, vx 100 and vz -4, once and
  three times, on a new object.\<close>

theorem telemetry_reduction_witness:
  "17 \<le> length [0, 0, 0, 0, 0, 86, 0, 1, 2, 9, 4, 20, 5, 100, 0, 7, 3 :: byte]
   \<and> dec_concat (unat ([0, 0, 0, 0, 0, 86, 0, 1, 2, 9, 4, 20, 5, 100, 0, 7, 3 :: byte] ! 6))
         (unat ([0, 0, 0, 0, 0, 86, 0, 1, 2, 9, 4, 20, 5, 100, 0, 7, 3 :: byte] ! 5)) = 86
   \<and> list_all vx100 (replicate 3 [0, 0, 0, 0, 0, 86, 0, 1, 2, 9, 4, 20, 5, 100, 0, 7, 3])
   \<and> pos_x created = of_int 0
   \<and> \<bar>0\<bar> + int (length (replicate 3 [0, 0, 0, 0, 0, 86, 0, 1, 2, 9, 4, 20, 5, 100, 0, 7, 3 :: byte])) \<le> 2 ^ 53
   \<and> uptime (fst (on_datagram [0, 0, 0, 0, 0, 86, 0, 1, 2, 9, 4, 20, 5, 100, 0, 7, 3] created)) = 511
   \<and> height (fst (on_datagram [0, 0, 0, 0, 0, 86, 0, 1, 2, 9, 4, 20, 5, 100, 0, 7, 3] created)) = 5
   \<and> vy (fst (on_datagram [0, 0, 0, 0, 0, 86, 0, 1, 2, 9, 4, 20, 5, 100, 0, 7, 3] created)) = 15
   \<and> vx (fst (on_datagram [0, 0, 0, 0, 0, 86, 0, 1, 2, 9, 4, 20, 5, 100, 0, 7, 3] created)) = 100
   \<and> vz (fst (on_datagram [0, 0, 0, 0, 0, 86, 0, 1, 2, 9, 4, 20, 5, 100, 0, 7, 3] created)) = - 4
   \<and> pos_x (fst (on_datagram [0, 0, 0, 0, 0, 86, 0, 1, 2, 9, 4, 20, 5, 100, 0, 7, 3] created))
       = py_fadd (pos_x created) 1
   \<and> pos_x (fst (receive_data
         (map Datagram (replicate 3 [0, 0, 0, 0, 0, 86, 0, 1, 2, 9, 4, 20, 5, 100, 0, 7, 3]))
         (created, []))) = 3"
proof -
  define d :: "byte list" where "d = [0, 0, 0, 0, 0, 86, 0, 1, 2, 9, 4, 20, 5, 100, 0, 7, 3]"
  have h1: "17 \<le> length d \<and> dec_concat (unat (d ! 6)) (unat (d ! 5)) = 86"
    by (simp add: d_def dec_concat_zero)
  have v: "vx100 d" using h1 by (simp add: vx100_def) (simp add: d_def)
  have h2: "list_all vx100 (replicate 3 d)" using v by (simp add: list_all_iff)
  have h3: "pos_x created = of_int 0 \<and> \<bar>0\<bar> + int (length (replicate 3 d)) \<le> 2 ^ 53"
    by (simp add: created_def init_state_def)
  have u: "unpacked d = [0, 0, 0, 0, 0, 86, 0, 1, 2, 9, 4, 20, 5, 100, 0, 7, 3]"
    by (simp add: unpacked_def d_def)
  from telemetry_reduction [of d created "replicate 3 d" "[]" 0] h1 h2 h3
  have "uptime (fst (on_datagram d created)) = 511
      \<and> height (fst (on_datagram d created)) = 5
      \<and> vy (fst (on_datagram d created)) = 15
      \<and> vx (fst (on_datagram d created)) = 100
      \<and> vz (fst (on_datagram d created)) = - 4
      \<and> pos_x (fst (on_datagram d created)) = py_fadd (pos_x created) 1
      \<and> pos_x (fst (receive_data (map Datagram (replicate 3 d)) (created, []))) = 3"
    unfolding Let_def u by (simp add: round1_of_100)
  with h1 h2 h3 show ?thesis unfolding d_def by blast
qed

text \<open>
  As the claim states it, for every frame dispatched with command id 86, it fails: the
  same frame without its last byte is dispatched and yields \<open>vx = 100\<close>, but reading
  byte 16 raises IndexError before vz and the position are assigned, so x stays 0.
\<close>

theorem telemetry_short_frame:
  "dec_concat (unat ([0, 0, 0, 0, 0, 86, 0, 1, 2, 9, 4, 20, 5, 100, 0, 7 :: byte] ! 6))
         (unat ([0, 0, 0, 0, 0, 86, 0, 1, 2, 9, 4, 20, 5, 100, 0, 7 :: byte] ! 5)) = 86
   \<and> vx (fst (on_datagram [0, 0, 0, 0, 0, 86, 0, 1, 2, 9, 4, 20, 5, 100, 0, 7] created)) = 100
   \<and> vz (fst (on_datagram [0, 0, 0, 0, 0, 86, 0, 1, 2, 9, 4, 20, 5, 100, 0, 7] created)) = 0
   \<and> pos_x (fst (on_datagram [0, 0, 0, 0, 0, 86, 0, 1, 2, 9, 4, 20, 5, 100, 0, 7] created)) = 0
   \<and> snd (on_datagram [0, 0, 0, 0, 0, 86, 0, 1, 2, 9, 4, 20, 5, 100, 0, 7] created)
       = Some IndexError"
proof -
  define d :: "byte list" where "d = [0, 0, 0, 0, 0, 86, 0, 1, 2, 9, 4, 20, 5, 100, 0, 7]"
  have h: "dec_concat (unat (d ! 6)) (unat (d ! 5)) = 86"
    by (simp add: d_def dec_concat_zero)
  have u: "unpacked d = [0, 0, 0, 0, 0, 86, 0, 1, 2, 9, 4, 20, 5, 100, 0, 7]"
    by (simp add: unpacked_def d_def)
  have od: "on_datagram d created = parse_data (unpacked d) (created\<lparr>rec_command_id := 86\<rparr>)"
    using h by (intro on_datagram_86) (simp_all add: d_def)
  have "on_datagram d created
      = (created\<lparr>rec_command_id := 86, uptime := 511, height := 5, vy := 15, vx := 100\<rparr>,
         Some IndexError)"
    unfolding od u by (simp add: parse_data_def assign2_def item_def)
  then show ?thesis using h unfolding d_def by (simp add: created_def init_state_def)
qed

section \<open>Checksums on the receive path\<close>

text \<open>
  Claim C2, amended. The receive path re-derives no checksum and compares none, and it
  has neither a ChecksumError nor a TruncatedFrame: what a datagram does is decided by
  its bytes alone. A datagram of at least 7 bytes always has the decimal concatenation
  of its bytes 6 and 5 stored as the last received command id, so a frame whose
  checksums do not validate is not discarded: it changes the drone state whenever that
  id differs from the stored one. A datagram shorter than 7 bytes raises IndexError,
  which is not fatal, and leaves the state unchanged.
\<close>

theorem receive_without_checksums:
  "(length dgram < 7 \<longrightarrow> on_datagram dgram s = (s, Some IndexError))
   \<and> (7 \<le> length dgram \<longrightarrow>
        rec_command_id (fst (on_datagram dgram s))
          = dec_concat (unat (dgram ! 6)) (unat (dgram ! 5)))
   \<and> (7 \<le> length dgram \<and> \<not> spec_checksums_valid dgram
        \<and> rec_command_id s \<noteq> dec_concat (unat (dgram ! 6)) (unat (dgram ! 5))
        \<longrightarrow> fst (on_datagram dgram s) \<noteq> s)"
proof (intro conjI impI)
  assume "length dgram < 7"
  then show "on_datagram dgram s = (s, Some IndexError)" by (rule on_datagram_short)
next
  assume "7 \<le> length dgram"
  then show "rec_command_id (fst (on_datagram dgram s))
      = dec_concat (unat (dgram ! 6)) (unat (dgram ! 5))"
    by (rule on_datagram_id)
next
  assume a: "7 \<le> length dgram \<and> \<not> spec_checksums_valid dgram
        \<and> rec_command_id s \<noteq> dec_concat (unat (dgram ! 6)) (unat (dgram ! 5))"
  then have "rec_command_id (fst (on_datagram dgram s)) \<noteq> rec_command_id s"
    by (simp add: on_datagram_id)
  then show "fst (on_datagram dgram s) \<noteq> s" by auto
qed

text \<open>The empty datagram and an 11-byte wifi report whose checksum bytes are all zero.\<close>

theorem receive_without_checksums_witness:
  "length ([] :: byte list) < 7
   \<and> on_datagram [] created = (created, Some IndexError)
   \<and> 7 \<le> length [0, 0, 0, 0, 0, 26, 0, 0, 0, 7, 3 :: byte]
   \<and> \<not> spec_checksums_valid [0, 0, 0, 0, 0, 26, 0, 0, 0, 7, 3]
   \<and> rec_command_id created
       \<noteq> dec_concat (unat ([0, 0, 0, 0, 0, 26, 0, 0, 0, 7, 3 :: byte] ! 6))
            (unat ([0, 0, 0, 0, 0, 26, 0, 0, 0, 7, 3 :: byte] ! 5))
   \<and> rec_command_id (fst (on_datagram [0, 0, 0, 0, 0, 26, 0, 0, 0, 7, 3] created)) = 26
   \<and> fst (on_datagram [0, 0, 0, 0, 0, 26, 0, 0, 0, 7, 3] created) \<noteq> created"
proof -
  define w :: "byte list" where "w = [0, 0, 0, 0, 0, 26, 0, 0, 0, 7, 3]"
  have h: "length ([] :: byte list) < 7" "7 \<le> length w" "\<not> spec_checksums_valid w"
    by (simp_all add: w_def wifi_frame_invalid)
  have c: "dec_concat (unat (w ! 6)) (unat (w ! 5)) = 26"
    by (simp add: w_def dec_concat_zero)
  have r: "rec_command_id created \<noteq> dec_concat (unat (w ! 6)) (unat (w ! 5))"
    unfolding c by (simp add: created_def init_state_def)
  from receive_without_checksums [of "[]" created] receive_without_checksums [of w created] h c r
  show ?thesis unfolding w_def by simp
qed

text \<open>
  As the claim states it, with invalid frames discarded, it fails: the wifi report with
  zero checksum bytes, which do not validate, sets the command id and the wifi value.
\<close>

theorem invalid_checksum_frame_accepted:
  "\<not> spec_checksums_valid [0, 0, 0, 0, 0, 26, 0, 0, 0, 7, 3]
   \<and> on_datagram [0, 0, 0, 0, 0, 26, 0, 0, 0, 7, 3] created
       = (created\<lparr>rec_command_id := 26, wifi := 37\<rparr>, None)"
  by (simp add: wifi_frame_invalid wifi_frame_accepted)

section \<open>Encoding and then receiving\<close>

text \<open>
  Claim C4, amended. For every packet type in \<open>0 .. 255\<close>, command id in \<open>0 .. 255\<close>,
  sequence number in \<open>0 .. 65535\<close> and payload of at most 1507 bytes, the bytes that
  \<open>build_packet\<close> and \<open>packet_to_binary\<close> produce, fed into the receive path, give back
  the command id: the id the receive path reconstructs by concatenating the decimal
  digits of the two command-id bytes, high byte first, equals the id given to the
  encoder. The type, the command id, the sequence number and the payload are in the
  unpacked tuple at index 4, at 5-6 and 7-8 little-endian, and at 9 .. N-2; the receive
  path has no decoder that reads them back.
\<close>

theorem encode_decode_roundtrip:
  assumes "is_byte pac_type" and "0 \<le> cmd_id" and "cmd_id \<le> 255"
    and "0 \<le> seq_id" and "seq_id < 65536"
    and "list_all is_byte data" and "length data \<le> 1507"
  shows "\<exists>frame dgram.
           build_packet pac_type cmd_id seq_id data = Inr frame
         \<and> packet_to_binary frame = Inr dgram
         \<and> rec_command_id (fst (on_datagram dgram s)) = cmd_id
         \<and> unpacked dgram ! 4 = pac_type
         \<and> from_le (getslice (unpacked dgram) 5 7) = cmd_id
         \<and> from_le (getslice (unpacked dgram) 7 9) = seq_id
         \<and> getslice (unpacked dgram) 9 (- 2) = data"
proof -
  define f where "f = spec_frame pac_type cmd_id seq_id data"
  have r: "cmd_id < 65536" "length data \<le> 8180" using assms(3,7) by simp_all
  have b: "build_packet pac_type cmd_id seq_id data = Inr f"
    unfolding f_def using assms r by (intro build_packet_closed)
  have bs: "list_all is_byte f"
    unfolding f_def using assms r by (intro spec_frame_bytes)
  have p: "packet_to_binary f = Inr (map word_of_int f)"
    using bs by (rule packet_to_binary_ok)
  have len: "length f \<le> 1518"
    unfolding f_def using assms(7) by (simp add: spec_frame_fields)
  have u: "unpacked (map word_of_int f) = f" using bs len by (rule unpacked_frame)
  have "cmd_id div 256 = 0" "cmd_id mod 256 = cmd_id" using assms(2,3) by simp_all
  then have i: "rec_command_id (fst (on_datagram (map word_of_int f) s)) = cmd_id"
    unfolding f_def using on_datagram_frame_id [of pac_type cmd_id seq_id data s] assms r
    by (simp add: dec_concat_zero)
  have f4: "unpacked (map word_of_int f) ! 4 = pac_type"
    and f5: "from_le (getslice (unpacked (map word_of_int f)) 5 7) = cmd_id"
    and f7: "from_le (getslice (unpacked (map word_of_int f)) 7 9) = seq_id"
    and f9: "getslice (unpacked (map word_of_int f)) 9 (- 2) = data"
    unfolding u unfolding f_def by (rule spec_frame_fields)+
  show ?thesis using b p i f4 f5 f7 f9 by blast
qed

text \<open>The land command with sequence number 7, received by a new object.\<close>

theorem encode_decode_roundtrip_witness:
  "is_byte 0x68 \<and> (0::int) \<le> 85 \<and> (85::int) \<le> 255 \<and> (0::int) \<le> 7 \<and> (7::int) < 65536
   \<and> list_all is_byte [0] \<and> length [0::int] \<le> 1507
   \<and> (\<exists>frame dgram.
           build_packet 0x68 85 7 [0] = Inr frame
         \<and> packet_to_binary frame = Inr dgram
         \<and> rec_command_id (fst (on_datagram dgram created)) = 85
         \<and> unpacked dgram ! 4 = 0x68
         \<and> from_le (getslice (unpacked dgram) 5 7) = 85
         \<and> from_le (getslice (unpacked dgram) 7 9) = 7
         \<and> getslice (unpacked dgram) 9 (- 2) = [0])"
proof -
  have h: "is_byte 0x68" "list_all is_byte [0]" by (simp_all add: is_byte_def)
  from encode_decode_roundtrip [of "0x68" 85 7 "[0]" created] h show ?thesis by simp
qed

text \<open>
  As the claim states it, for every command id, it fails: the frame encoded for command
  id 256 has the id bytes 0 and 1, which the receive path reads as the digits of 1
  followed by those of 0, the id 10.
\<close>

theorem command_id_256_decodes_as_10:
  "build_packet 0x68 256 1 [] = Inr (spec_frame 0x68 256 1 [])
   \<and> packet_to_binary (spec_frame 0x68 256 1 []) = Inr (map word_of_int (spec_frame 0x68 256 1 []))
   \<and> rec_command_id (fst (on_datagram (map word_of_int (spec_frame 0x68 256 1 [])) created)) = 10"
proof -
  have h: "is_byte 0x68" "list_all is_byte []" by (simp_all add: is_byte_def)
  have b: "build_packet 0x68 256 1 [] = Inr (spec_frame 0x68 256 1 [])"
    using h by (simp add: build_packet_eq)
  have "list_all is_byte (spec_frame 0x68 256 1 [])"
    using h by (intro spec_frame_bytes) simp_all
  then have p: "packet_to_binary (spec_frame 0x68 256 1 []) = Inr (map word_of_int (spec_frame 0x68 256 1 []))"
    by (rule packet_to_binary_ok)
  have i: "rec_command_id (fst (on_datagram (map word_of_int (spec_frame 0x68 256 1 [])) created)) = 10"
    using on_datagram_frame_id [of "0x68" 256 1 "[]" created] h
    by (simp add: dec_concat_def digits.simps)
  show ?thesis using b p i by blast
qed

section \<open>The receive loop\<close>

text \<open>
  Claim C7. Whatever \<open>recvfrom\<close> did so far, datagrams of any content or failures of
  the call, the loop has handled all of it and is at a definite state with the exceptions
  it printed; none escaped. What comes next is handled as in any other pass of the loop:
  an exception of the body is printed and the loop goes on, and a well-formed telemetry
  frame (28 bytes or more, dispatched with command id 86) raises nothing, prints nothing
  and is reduced in full into the state the earlier events left.
\<close>

theorem receive_loop_isolation:
  "\<exists>s' printed'.
      receive_data evs (s, printed) = (s', printed')
    \<and> receive_data (evs @ [ev]) (s, printed)
        = (case try_body ev s' of
             (s'', None) \<Rightarrow> (s'', printed')
           | (s'', Some e) \<Rightarrow> (s'', printed' @ [e]))
    \<and> (28 \<le> length dgram \<and> dec_concat (unat (dgram ! 6)) (unat (dgram ! 5)) = 86 \<longrightarrow>
         (let rec = unpacked dgram
          in receive_data (evs @ [Datagram dgram]) (s, printed)
             = (s'\<lparr>rec_command_id := 86,
                   uptime := rec ! 7 + 255 * rec ! 8, height := rec ! 9 - rec ! 10,
                   vy := rec ! 11 - rec ! 12, vx := rec ! 13 - rec ! 14,
                   vz := - (rec ! 15 - rec ! 16),
                   pos_x := py_fadd (pos_x s') (py_round1 (py_truediv (rec ! 13 - rec ! 14) 100)),
                   pos_y := py_fadd (pos_y s') (py_round1 (py_truediv (rec ! 11 - rec ! 12) 100)),
                   pos_z := py_fadd (pos_z s') (py_round1 (py_truediv (- (rec ! 15 - rec ! 16)) 100)),
                   flytime := rec ! 17 * rec ! 18, battery := rec ! 21,
                   get_command := PyStr (str_of_int (rec ! 26) @ str_lit '' '' @ str_of_int (rec ! 27))\<rparr>,
                printed')))"
proof -
  obtain s' printed' where r: "receive_data evs (s, printed) = (s', printed')"
    by (cases "receive_data evs (s, printed)")
  have step: "receive_data (evs @ [ev]) (s, printed)
        = (case try_body ev s' of
             (s'', None) \<Rightarrow> (s'', printed')
           | (s'', Some e) \<Rightarrow> (s'', printed' @ [e]))" for ev
    by (simp add: receive_data_append r split: prod.splits option.splits)
  have tele: "let rec = unpacked dgram
          in receive_data (evs @ [Datagram dgram]) (s, printed)
             = (s'\<lparr>rec_command_id := 86,
                   uptime := rec ! 7 + 255 * rec ! 8, height := rec ! 9 - rec ! 10,
                   vy := rec ! 11 - rec ! 12, vx := rec ! 13 - rec ! 14,
                   vz := - (rec ! 15 - rec ! 16),
                   pos_x := py_fadd (pos_x s') (py_round1 (py_truediv (rec ! 13 - rec ! 14) 100)),
                   pos_y := py_fadd (pos_y s') (py_round1 (py_truediv (rec ! 11 - rec ! 12) 100)),
                   pos_z := py_fadd (pos_z s') (py_round1 (py_truediv (- (rec ! 15 - rec ! 16)) 100)),
                   flytime := rec ! 17 * rec ! 18, battery := rec ! 21,
                   get_command := PyStr (str_of_int (rec ! 26) @ str_lit '' '' @ str_of_int (rec ! 27))\<rparr>,
                printed')"
    if a: "28 \<le> length dgram \<and> dec_concat (unat (dgram ! 6)) (unat (dgram ! 5)) = 86"
  proof -
    have l: "28 \<le> length (unpacked dgram)" using a by (simp add: length_unpacked)
    have od: "on_datagram dgram s' = parse_data (unpacked dgram) (s'\<lparr>rec_command_id := 86\<rparr>)"
      using a by (intro on_datagram_86) simp_all
    show ?thesis
      unfolding Let_def step [of "Datagram dgram"] by (simp add: od parse_data_full [OF l])
  qed
  show ?thesis using r step tele by blast
qed

text \<open>An empty datagram, a failing \<open>recvfrom\<close> and a truncated telemetry frame, then a
  telemetry frame of 28 bytes, on a new object.\<close>

theorem receive_loop_isolation_witness:
  "28 \<le> length [0, 0, 0, 0, 0, 86, 0, 1, 2, 9, 4, 20, 5, 100, 0, 7, 3, 6, 7, 0, 0, 88, 0, 0, 0, 0, 1, 2 :: byte]
   \<and> dec_concat
        (unat ([0, 0, 0, 0, 0, 86, 0, 1, 2, 9, 4, 20, 5, 100, 0, 7, 3, 6, 7, 0, 0, 88, 0, 0, 0, 0, 1, 2 :: byte] ! 6))
        (unat ([0, 0, 0, 0, 0, 86, 0, 1, 2, 9, 4, 20, 5, 100, 0, 7, 3, 6, 7, 0, 0, 88, 0, 0, 0, 0, 1, 2 :: byte] ! 5))
       = 86
   \<and> receive_data
        [Datagram [], RecvFails, Datagram [0, 0, 0, 0, 0, 86, 0, 1, 2, 9, 4, 20, 5, 100, 0, 7]]
        (created, [])
       = (created\<lparr>rec_command_id := 86, uptime := 511, height := 5, vy := 15, vx := 100\<rparr>,
          [IndexError, OSError, IndexError])
   \<and> receive_data
        ([Datagram [], RecvFails, Datagram [0, 0, 0, 0, 0, 86, 0, 1, 2, 9, 4, 20, 5, 100, 0, 7]]
         @ [Datagram [0, 0, 0, 0, 0, 86, 0, 1, 2, 9, 4, 20, 5, 100, 0, 7, 3, 6, 7, 0, 0, 88, 0, 0, 0, 0, 1, 2]])
        (created, [])
       = (created\<lparr>rec_command_id := 86, uptime := 511, height := 5, vy := 15, vx := 100, vz := - 4,
             pos_x := 1,
             pos_y := py_fadd 0 (py_round1 (py_truediv 15 100)),
             pos_z := py_fadd 0 (py_round1 (py_truediv (- 4) 100)),
             flytime := 42, battery := 88,
             get_command := PyStr (str_of_int 1 @ str_lit '' '' @ str_of_int 2)\<rparr>,
          [IndexError, OSError, IndexError])"
proof -
  define d :: "byte list"
    where "d = [0, 0, 0, 0, 0, 86, 0, 1, 2, 9, 4, 20, 5, 100, 0, 7, 3, 6, 7, 0, 0, 88, 0, 0, 0, 0, 1, 2]"
  define evs where "evs = [Datagram [], RecvFails, Datagram [0, 0, 0, 0, 0, 86, 0, 1, 2, 9, 4, 20, 5, 100, 0, 7]]"
  define sA where "sA = created\<lparr>rec_command_id := 86, uptime := 511, height := 5, vy := 15, vx := 100\<rparr>"
  have h: "28 \<le> length d \<and> dec_concat (unat (d ! 6)) (unat (d ! 5)) = 86"
    by (simp add: d_def dec_concat_zero)
  have e: "receive_data evs (created, []) = (sA, [IndexError, OSError, IndexError])"
    by (simp add: evs_def sA_def on_datagram_short short_telemetry_frame)
  have u: "unpacked d
      = [0, 0, 0, 0, 0, 86, 0, 1, 2, 9, 4, 20, 5, 100, 0, 7, 3, 6, 7, 0, 0, 88, 0, 0, 0, 0, 1, 2]"
    by (simp add: unpacked_def d_def)
  have x: "py_fadd 0 (py_round1 (py_truediv 100 100)) = 1"
    using fadd_int_one [of 0] by (simp add: round1_of_100)
  from receive_loop_isolation [of evs created "[]" "Datagram d" d] h e
  have "receive_data (evs @ [Datagram d]) (created, [])
       = (created\<lparr>rec_command_id := 86, uptime := 511, height := 5, vy := 15, vx := 100, vz := - 4,
             pos_x := 1,
             pos_y := py_fadd 0 (py_round1 (py_truediv 15 100)),
             pos_z := py_fadd 0 (py_round1 (py_truediv (- 4) 100)),
             flytime := 42, battery := 88,
             get_command := PyStr (str_of_int 1 @ str_lit '' '' @ str_of_int 2)\<rparr>,
          [IndexError, OSError, IndexError])"
    unfolding Let_def u by (auto simp: sA_def created_def init_state_def x)
  with h e show ?thesis unfolding d_def evs_def sA_def by simp
qed

section \<open>Resetting the position\<close>

text \<open>
  Claim C9. For every state of the object, \<open>cie_reset\<close> sets the integrated position
  \<open>x\<close>, \<open>y\<close>, \<open>z\<close> to 0 and leaves every other attribute as it was: the velocities,
  height, battery, ssid, wifi, uptime, flytime, the command echo, the last received
  command id, and also the sequence counter, the speed flag and what has been sent.
\<close>

theorem cie_reset_frame:
  "pos_x (cie_reset s) = 0 \<and> pos_y (cie_reset s) = 0 \<and> pos_z (cie_reset s) = 0
   \<and> vx (cie_reset s) = vx s \<and> vy (cie_reset s) = vy s \<and> vz (cie_reset s) = vz s
   \<and> height (cie_reset s) = height s \<and> battery (cie_reset s) = battery s
   \<and> ssid (cie_reset s) = ssid s \<and> wifi (cie_reset s) = wifi s
   \<and> uptime (cie_reset s) = uptime s \<and> flytime (cie_reset s) = flytime s
   \<and> get_command (cie_reset s) = get_command s
   \<and> rec_command_id (cie_reset s) = rec_command_id s
   \<and> sequence (cie_reset s) = sequence s \<and> speed (cie_reset s) = speed s
   \<and> sent (cie_reset s) = sent s"
  by (simp add: cie_reset_def)

end
